theory Spec2Isabelle
  imports Complex_Main "HOL-Library.Sublist" "HOL-Library.Multiset" "HOL-Library.Log_Nat"
begin

section \<open>JavaScript values used by AirBnBDataHandler.js\<close>

text \<open>
  A listing is a JavaScript object whose field values come from the CSV parser, so they
  are strings; \<open>null\<close> is kept as a value because \<open>quoteField\<close> tests for it. Reading a
  property gives \<open>undefined\<close> when neither the object nor \<open>Object.prototype\<close> has it, and a
  member of \<open>Object.prototype\<close> otherwise: a built-in function (\<open>Native\<close>, with the name of
  the function) or, for \<open>__proto__\<close>, the prototype object itself. Strings are lists of
  8-bit characters (the code units below 256).
\<close>

datatype jsval = Undefined | Null | Str string | Native string | ObjectPrototype

text \<open>
  A JavaScript number is an IEEE 754 double: \<open>NaN\<close>, one of the two infinities, negative
  zero, or a finite value \<open>Fin q\<close>, where \<open>Fin 0\<close> is positive zero. Every operation below
  rounds its exact result to the nearest double.
\<close>

datatype jsnum = NaN | PosInf | NegInf | NegZero | Fin rat

text \<open>\<open>ToBoolean\<close> on a number and on a field value.\<close>

fun truthy_num :: "jsnum \<Rightarrow> bool" where
  "truthy_num NaN = False"
| "truthy_num NegZero = False"
| "truthy_num (Fin q) = (q \<noteq> 0)"
| "truthy_num PosInf = True"
| "truthy_num NegInf = True"

fun truthy :: "jsval \<Rightarrow> bool" where
  "truthy Undefined = False"
| "truthy Null = False"
| "truthy (Str s) = (s \<noteq> [])"
| "truthy (Native n) = True"
| "truthy ObjectPrototype = True"

text \<open>\<open>a || b\<close> on numbers.\<close>

definition num_or :: "jsnum \<Rightarrow> jsnum \<Rightarrow> jsnum" where
  "num_or a b = (if truthy_num a then a else b)"

subsection \<open>Rounding to a double\<close>

definition pow2 :: "int \<Rightarrow> rat" where
  "pow2 e = (if e \<ge> 0 then 2 ^ nat e else 1 / 2 ^ nat (- e))"

text \<open>The exponent \<open>e\<close> of a positive rational \<open>a\<close>: \<open>2^e \<le> a < 2^(e+1)\<close>.\<close>

definition ilog2 :: "rat \<Rightarrow> int" where
  "ilog2 a = (if a \<ge> 1 then bitlen \<lfloor>a\<rfloor> - 1 else - bitlen (\<lceil>1 / a\<rceil> - 1))"

text \<open>The nearest integer to a non-negative rational, a tie going to the even one.\<close>

definition round_half_even :: "rat \<Rightarrow> int" where
  "round_half_even x =
     (let f = \<lfloor>x\<rfloor>; d = x - of_int f
      in if d < 1 / 2 then f else if d > 1 / 2 then f + 1
         else if even f then f else f + 1)"

text \<open>
  Round to nearest, ties to even, with 53 significant bits, the smallest exponent -1022
  (below it the spacing stays \<open>2^-1074\<close>) and overflow to an infinity from \<open>2^1024\<close> on.
  A non-zero value that rounds to zero keeps its sign.
\<close>

definition round_double :: "rat \<Rightarrow> jsnum" where
  "round_double q =
     (if q = 0 then Fin 0
      else
        (let a = \<bar>q\<bar>;
             p = max (ilog2 a) (- 1022) - 52;
             n = round_half_even (a / pow2 p);
             v = of_int n * pow2 p
         in if v \<ge> pow2 1024 then (if q > 0 then PosInf else NegInf)
            else if n = 0 then (if q > 0 then Fin 0 else NegZero)
            else Fin (if q > 0 then v else - v)))"

subsection \<open>Arithmetic and comparison\<close>

text \<open>\<open>a + b\<close>\<close>

fun num_add :: "jsnum \<Rightarrow> jsnum \<Rightarrow> jsnum" where
  "num_add NaN _ = NaN"
| "num_add _ NaN = NaN"
| "num_add PosInf NegInf = NaN"
| "num_add NegInf PosInf = NaN"
| "num_add PosInf _ = PosInf"
| "num_add _ PosInf = PosInf"
| "num_add NegInf _ = NegInf"
| "num_add _ NegInf = NegInf"
| "num_add NegZero y = y"
| "num_add (Fin a) NegZero = Fin a"
| "num_add (Fin a) (Fin b) = round_double (a + b)"

text \<open>The sign, the class and the value of a number that is not \<open>NaN\<close>.\<close>

fun is_neg :: "jsnum \<Rightarrow> bool" where
  "is_neg NegInf = True"
| "is_neg NegZero = True"
| "is_neg (Fin q) = (q < 0)"
| "is_neg _ = False"

fun is_inf :: "jsnum \<Rightarrow> bool" where
  "is_inf PosInf = True"
| "is_inf NegInf = True"
| "is_inf _ = False"

fun num_val :: "jsnum \<Rightarrow> rat" where
  "num_val (Fin q) = q"
| "num_val _ = 0"

definition signed_inf :: "bool \<Rightarrow> jsnum" where
  "signed_inf neg = (if neg then NegInf else PosInf)"

definition signed_zero :: "bool \<Rightarrow> jsnum" where
  "signed_zero neg = (if neg then NegZero else Fin 0)"

text \<open>\<open>a / b\<close>\<close>

definition num_div :: "jsnum \<Rightarrow> jsnum \<Rightarrow> jsnum" where
  "num_div a b =
     (let neg = (is_neg a \<noteq> is_neg b)
      in if a = NaN \<or> b = NaN then NaN
         else if is_inf a then (if is_inf b then NaN else signed_inf neg)
         else if is_inf b then signed_zero neg
         else if num_val b = 0 then (if num_val a = 0 then NaN else signed_inf neg)
         else if num_val a = 0 then signed_zero neg
         else round_double (num_val a / num_val b))"

text \<open>\<open>a >= b\<close> and \<open>a <= b\<close>\<close>

definition num_ge :: "jsnum \<Rightarrow> jsnum \<Rightarrow> bool" where
  "num_ge a b =
     (a \<noteq> NaN \<and> b \<noteq> NaN \<and>
      (a = PosInf \<or> b = NegInf \<or> (a \<noteq> NegInf \<and> b \<noteq> PosInf \<and> num_val a \<ge> num_val b)))"

definition num_le :: "jsnum \<Rightarrow> jsnum \<Rightarrow> bool" where
  "num_le a b = num_ge b a"

text \<open>
  \<open>ToString\<close>, as applied by \<open>parseFloat\<close>, \<open>parseInt\<close>, \<open>String\<close>, by a property access
  \<open>acc[host]\<close> and by \<open>+\<close> with a string operand.
\<close>

fun ToString :: "jsval \<Rightarrow> string" where
  "ToString Undefined = ''undefined''"
| "ToString Null = ''null''"
| "ToString (Str s) = s"
| "ToString (Native n) = ''function '' @ n @ ''() { [native code] }''"
| "ToString ObjectPrototype = ''[object Object]''"

subsection \<open>Numeric literals\<close>

definition is_ws :: "char \<Rightarrow> bool" where
  "is_ws c = (c \<in> set [CHR 0x09, CHR 0x0A, CHR 0x0B, CHR 0x0C, CHR 0x0D, CHR 0x20, CHR 0xA0])"

definition digit_table :: "(char \<times> int) list" where
  "digit_table =
     [(CHR ''0'', 0), (CHR ''1'', 1), (CHR ''2'', 2), (CHR ''3'', 3), (CHR ''4'', 4),
      (CHR ''5'', 5), (CHR ''6'', 6), (CHR ''7'', 7), (CHR ''8'', 8), (CHR ''9'', 9)]"

definition hex_table :: "(char \<times> int) list" where
  "hex_table = digit_table @
     [(CHR ''a'', 10), (CHR ''b'', 11), (CHR ''c'', 12), (CHR ''d'', 13), (CHR ''e'', 14),
      (CHR ''f'', 15), (CHR ''A'', 10), (CHR ''B'', 11), (CHR ''C'', 12), (CHR ''D'', 13),
      (CHR ''E'', 14), (CHR ''F'', 15)]"

definition is_digit_in :: "(char \<times> int) list \<Rightarrow> char \<Rightarrow> bool" where
  "is_digit_in tab c = (map_of tab c \<noteq> None)"

definition digit_val :: "(char \<times> int) list \<Rightarrow> char \<Rightarrow> int" where
  "digit_val tab c = (case map_of tab c of None \<Rightarrow> 0 | Some d \<Rightarrow> d)"

definition digits_val :: "int \<Rightarrow> (char \<times> int) list \<Rightarrow> string \<Rightarrow> int" where
  "digits_val radix tab ds = foldl (\<lambda>a c. radix * a + digit_val tab c) 0 ds"

abbreviation is_digit :: "char \<Rightarrow> bool" where
  "is_digit \<equiv> is_digit_in digit_table"

abbreviation dec_val :: "string \<Rightarrow> int" where
  "dec_val \<equiv> digits_val 10 digit_table"

text \<open>The optional sign in front of a literal: the sign and the rest of the text.\<close>

fun strip_sign :: "string \<Rightarrow> bool \<times> string" where
  "strip_sign [] = (False, [])"
| "strip_sign (c # cs) =
     (if c = CHR ''-'' then (True, cs) else if c = CHR ''+'' then (False, cs)
      else (False, c # cs))"

text \<open>
  The exponent part of a decimal literal, read at the text that follows the mantissa:
  \<open>e\<close> or \<open>E\<close>, an optional sign and at least one digit; otherwise there is no exponent
  and the literal ends at the mantissa.
\<close>

definition exponent_part :: "string \<Rightarrow> int" where
  "exponent_part r =
     (case r of
        [] \<Rightarrow> 0
      | c # cs \<Rightarrow>
          if c = CHR ''e'' \<or> c = CHR ''E'' then
            (let (neg, ds) = strip_sign cs; es = takeWhile is_digit ds
             in if es = [] then 0
                else if neg then - dec_val es else dec_val es)
          else 0)"

definition scale10 :: "rat \<Rightarrow> int \<Rightarrow> rat" where
  "scale10 q e = (if e \<ge> 0 then q * 10 ^ nat e else q / 10 ^ nat (- e))"

text \<open>
  What a parser finds at the start of a text: no literal, an infinity, or a literal with
  its sign and the exact magnitude it denotes. The number it returns is the magnitude
  rounded to a double, a zero keeping the sign of the literal.
\<close>

datatype literal = NoLiteral | InfLiteral bool | NumLiteral bool rat

definition literal_number :: "literal \<Rightarrow> jsnum" where
  "literal_number lit =
     (case lit of
        NoLiteral \<Rightarrow> NaN
      | InfLiteral neg \<Rightarrow> signed_inf neg
      | NumLiteral neg m \<Rightarrow>
          if m = 0 then signed_zero neg else round_double (if neg then - m else m))"

text \<open>
  \<open>parseFloat\<close> on a string: leading white space is skipped, then the longest prefix that
  is a decimal literal (sign, \<open>Infinity\<close> or digits with an optional fraction and
  exponent) gives the value; if there is no such prefix the result is \<open>NaN\<close>.
\<close>

definition float_literal :: "string \<Rightarrow> literal" where
  "float_literal s =
     (let (neg, u) = strip_sign (dropWhile is_ws s)
      in if take 8 u = ''Infinity'' then InfLiteral neg
         else
           (let ip = takeWhile is_digit u;
                r1 = dropWhile is_digit u;
                (fp, r2) = (case r1 of
                              [] \<Rightarrow> ([], r1)
                            | c # cs \<Rightarrow> if c = CHR ''.''
                                then (takeWhile is_digit cs, dropWhile is_digit cs)
                                else ([], r1))
            in if ip = [] \<and> fp = [] then NoLiteral
               else
                 (let m = of_int (dec_val ip) + of_int (dec_val fp) / 10 ^ length fp
                  in NumLiteral neg (scale10 m (exponent_part r2)))))"

definition parseFloat :: "jsval \<Rightarrow> jsnum" where
  "parseFloat v = literal_number (float_literal (ToString v))"

text \<open>
  \<open>parseInt\<close> without a radix: leading white space and a sign are skipped, a prefix
  \<open>0x\<close> or \<open>0X\<close> selects radix 16, and the digits up to the first character that is not
  a digit of the radix give the value; with no digit the result is \<open>NaN\<close>.
\<close>

definition int_literal :: "string \<Rightarrow> literal" where
  "int_literal s =
     (let (neg, u) = strip_sign (dropWhile is_ws s);
          hex = (take 2 u = ''0x'' \<or> take 2 u = ''0X'');
          tab = (if hex then hex_table else digit_table);
          z = takeWhile (is_digit_in tab) (if hex then drop 2 u else u);
          n = digits_val (if hex then 16 else 10) tab z
      in if z = [] then NoLiteral else NumLiteral neg (of_int n))"

definition parseInt :: "jsval \<Rightarrow> jsnum" where
  "parseInt v = literal_number (int_literal (ToString v))"

section \<open>Objects\<close>

text \<open>
  An object is the list of its own properties in the order in which they were created; its
  prototype is \<open>Object.prototype\<close>, whose members are the built-in functions below and the
  accessor \<open>__proto__\<close>, which reads as the prototype object.
\<close>

type_synonym 'v obj = "(string \<times> 'v) list"

type_synonym listing = "jsval obj"

definition proto_members :: "(string \<times> jsval) list" where
  "proto_members =
     [(''constructor'', Native ''Object''),
      (''__defineGetter__'', Native ''__defineGetter__''),
      (''__defineSetter__'', Native ''__defineSetter__''),
      (''hasOwnProperty'', Native ''hasOwnProperty''),
      (''__lookupGetter__'', Native ''__lookupGetter__''),
      (''__lookupSetter__'', Native ''__lookupSetter__''),
      (''isPrototypeOf'', Native ''isPrototypeOf''),
      (''propertyIsEnumerable'', Native ''propertyIsEnumerable''),
      (''toString'', Native ''toString''),
      (''valueOf'', Native ''valueOf''),
      (''toLocaleString'', Native ''toLocaleString''),
      (''__proto__'', ObjectPrototype)]"

definition inherited :: "string \<Rightarrow> bool" where
  "inherited k = (map_of proto_members k \<noteq> None)"

text \<open>\<open>l[k]\<close>: the own property, else the inherited one, else \<open>undefined\<close>.\<close>

definition field :: "listing \<Rightarrow> string \<Rightarrow> jsval" where
  "field l k =
     (case map_of l k of
        Some v \<Rightarrow> v
      | None \<Rightarrow> (case map_of proto_members k of Some v \<Rightarrow> v | None \<Rightarrow> Undefined))"

text \<open>
  Creating or updating an own property: an existing property keeps its place, a new one is
  added last.
\<close>

fun obj_set :: "string \<Rightarrow> 'v \<Rightarrow> 'v obj \<Rightarrow> 'v obj" where
  "obj_set k v [] = [(k, v)]"
| "obj_set k v (p # ps) = (if fst p = k then (k, v) # ps else p # obj_set k v ps)"

text \<open>
  The order in which \<open>Object.keys\<close> and \<open>Object.entries\<close> enumerate the own properties:
  first the keys that are array indices (canonical decimal numerals up to \<open>2^32 - 2\<close>), in
  ascending numeric order, then all other keys in creation order.
\<close>

definition is_array_index :: "string \<Rightarrow> bool" where
  "is_array_index k =
     (k \<noteq> [] \<and> list_all is_digit k \<and> (k = ''0'' \<or> hd k \<noteq> CHR ''0'') \<and>
      dec_val k \<le> 4294967294)"

definition Object_entries :: "'v obj \<Rightarrow> (string \<times> 'v) list" where
  "Object_entries obj =
     sort_key (\<lambda>p. dec_val (fst p)) (filter (\<lambda>p. is_array_index (fst p)) obj)
     @ filter (\<lambda>p. \<not> is_array_index (fst p)) obj"

definition Object_keys :: "'v obj \<Rightarrow> string list" where
  "Object_keys obj = map fst (Object_entries obj)"

subsection \<open>Array.prototype.sort\<close>

text \<open>
  The comparison function returns a number, \<open>None\<close> standing for \<open>NaN\<close>, which the sort
  reads as 0.
\<close>

definition SortCompare :: "('a \<Rightarrow> 'a \<Rightarrow> int option) \<Rightarrow> 'a \<Rightarrow> 'a \<Rightarrow> int" where
  "SortCompare comparefn a b = (case comparefn a b of None \<Rightarrow> 0 | Some v \<Rightarrow> v)"

text \<open>A consistent comparator for the values of an array, as ECMAScript defines it.\<close>

definition consistent :: "('a \<Rightarrow> 'a \<Rightarrow> int) \<Rightarrow> 'a list \<Rightarrow> bool" where
  "consistent c xs =
     (\<forall>a\<in>set xs. c a a = 0 \<and>
        (\<forall>b\<in>set xs. (c a b = 0 \<longrightarrow> c b a = 0) \<and>
           (\<forall>d\<in>set xs.
              (c a b = 0 \<and> c b d = 0 \<longrightarrow> c a d = 0) \<and>
              (c a b < 0 \<and> c b d < 0 \<longrightarrow> c a d < 0) \<and>
              (c a b > 0 \<and> c b d > 0 \<longrightarrow> c a d > 0))))"

fun insort_cmp :: "('a \<Rightarrow> 'a \<Rightarrow> int) \<Rightarrow> 'a \<Rightarrow> 'a list \<Rightarrow> 'a list" where
  "insort_cmp c x [] = [x]"
| "insort_cmp c x (y # ys) = (if c x y \<le> 0 then x # y # ys else y # insort_cmp c x ys)"

text \<open>
  With a consistent comparator the result is the stable sort: \<open>a\<close> stays in front of \<open>b\<close>
  unless the comparison is positive. Otherwise the order is implementation-defined: it is
  the one the engine gives, taken as the parameter \<open>engine\<close>, and is a rearrangement of the
  array.
\<close>

definition sort_cmp ::
  "('a list \<Rightarrow> 'a list) \<Rightarrow> ('a \<Rightarrow> 'a \<Rightarrow> int option) \<Rightarrow> 'a list \<Rightarrow> 'a list" where
  "sort_cmp engine comparefn xs =
     (if consistent (SortCompare comparefn) xs
      then foldr (insort_cmp (SortCompare comparefn)) xs []
      else if mset (engine xs) = mset xs then engine xs else xs)"

text \<open>\<open>Array.prototype.join\<close> on an array of strings.\<close>

fun join :: "string \<Rightarrow> string list \<Rightarrow> string" where
  "join sep [] = []"
| "join sep [x] = x"
| "join sep (x # y # ys) = x @ sep @ join sep (y # ys)"

section \<open>convertToCSV\<close>

definition needs_quote :: "string \<Rightarrow> bool" where
  "needs_quote s = (CHR '','' \<in> set s \<or> CHR 0x22 \<in> set s \<or> CHR 0x0A \<in> set s)"

text \<open>\<open>fieldStr.replace(/"/g, '""')\<close>\<close>

definition double_quotes :: "string \<Rightarrow> string" where
  "double_quotes s = concat (map (\<lambda>c. if c = CHR 0x22 then [CHR 0x22, CHR 0x22] else [c]) s)"

definition quoteField :: "jsval \<Rightarrow> string" where
  "quoteField fld =
     (if fld = Null \<or> fld = Undefined then []
      else (let fieldStr = ToString fld
            in if needs_quote fieldStr then [CHR 0x22] @ double_quotes fieldStr @ [CHR 0x22]
               else fieldStr))"

definition convertToCSV :: "listing list \<Rightarrow> string" where
  "convertToCSV dat =
     (case dat of
        [] \<Rightarrow> []
      | first # _ \<Rightarrow>
          (let headers = Object_keys first;
               headerLine = join '','' headers;
               rows = map (\<lambda>row. join '','' (map (\<lambda>header. quoteField (field row header)) headers)) dat
           in join [CHR 0x0A] (headerLine # rows)))"

section \<open>The handler\<close>

record stats =
  count :: nat
  avgPricePerBedroom :: jsnum

text \<open>
  The value stored under a host key by \<open>computeHostRanking\<close>: a number, or, once an
  inherited member of \<open>Object.prototype\<close> has been read under that key, a text: the text
  of the member named \<open>k\<close> followed by \<open>n\<close> characters \<open>1\<close> (\<open>Appended k n\<close>).
\<close>

datatype host_count = Num nat | Appended string nat

text \<open>
  An entry \<open>{host, count}\<close> of the host ranking; its \<open>count\<close> field is written \<open>count'\<close>
  here, to keep it apart from the \<open>count\<close> field of the statistics.
\<close>

record ranking_entry =
  host :: string
  count' :: host_count

record criteria =
  priceRange :: "(jsnum \<times> jsnum) option"
  rooms :: "jsnum option"
  reviewScore :: "jsnum option"

text \<open>
  The closure variables \<open>data\<close> and \<open>pinnedIds\<close> and the two properties that
  \<open>computeStats\<close> and \<open>computeHostRanking\<close> store on the handler object.
\<close>

record handler =
  data :: "listing list"
  pinnedIds :: "jsval list"
  stats :: "stats option"
  hostRanking :: "ranking_entry list option"

definition createHandler :: "listing list \<Rightarrow> handler" where
  "createHandler listings = \<lparr>data = listings, pinnedIds = [], stats = None, hostRanking = None\<rparr>"

subsection \<open>filter\<close>

text \<open>The three \<open>if\<close> statements of the callback, each updating \<open>valid\<close>.\<close>

definition price_step :: "criteria \<Rightarrow> listing \<Rightarrow> bool \<Rightarrow> bool" where
  "price_step c l valid =
     (case priceRange c of
        None \<Rightarrow> valid
      | Some (lo, hi) \<Rightarrow>
          (let price = parseFloat (field l ''price'')
           in valid \<and> num_ge price lo \<and> num_le price hi))"

definition rooms_step :: "criteria \<Rightarrow> listing \<Rightarrow> bool \<Rightarrow> bool" where
  "rooms_step c l valid =
     (case rooms c of
        None \<Rightarrow> valid
      | Some r \<Rightarrow>
          if truthy_num r then
            (let rooms = num_or (parseInt (field l ''bedrooms'')) (Fin 0)
             in valid \<and> num_ge rooms r)
          else valid)"

definition review_step :: "criteria \<Rightarrow> listing \<Rightarrow> bool \<Rightarrow> bool" where
  "review_step c l valid =
     (case reviewScore c of
        None \<Rightarrow> valid
      | Some r \<Rightarrow>
          if truthy_num r then
            (let score = num_or (parseFloat (field l ''review_scores_rating'')) (Fin 0)
             in valid \<and> num_ge score r)
          else valid)"

definition listing_valid :: "criteria \<Rightarrow> listing \<Rightarrow> bool" where
  "listing_valid c l = review_step c l (rooms_step c l (price_step c l True))"

definition filter_listings :: "criteria \<Rightarrow> handler \<Rightarrow> handler" where
  "filter_listings c h = h\<lparr>data := filter (listing_valid c) (data h)\<rparr>"

text \<open>
  A call of \<open>filter\<close>, whose argument may be absent: the callback then fails on
  \<open>criteria.priceRange\<close> at the first record with a \<open>TypeError\<close>. This is the only statement
  of \<open>filter\<close> and \<open>computeStats\<close> that can raise.
\<close>

datatype error = TypeError

definition filter_call :: "criteria option \<Rightarrow> handler \<Rightarrow> error + handler" where
  "filter_call arg h =
     (case arg of
        None \<Rightarrow> if data h = [] then Inr h else Inl TypeError
      | Some c \<Rightarrow> Inr (filter_listings c h))"

subsection \<open>computeStats\<close>

text \<open>The two summands of the \<open>reduce\<close> calls.\<close>

definition price_term :: "listing \<Rightarrow> jsnum" where
  "price_term l = num_or (parseFloat (field l ''price'')) (Fin 0)"

definition bedrooms_term :: "listing \<Rightarrow> jsnum" where
  "bedrooms_term l = num_or (parseInt (field l ''bedrooms'')) (Fin 0)"

definition totalPrice :: "listing list \<Rightarrow> jsnum" where
  "totalPrice dat = foldl (\<lambda>sum l. num_add sum (price_term l)) (Fin 0) dat"

definition totalBedrooms :: "listing list \<Rightarrow> jsnum" where
  "totalBedrooms dat = foldl (\<lambda>sum l. num_add sum (bedrooms_term l)) (Fin 0) dat"

definition computeStats :: "handler \<Rightarrow> handler" where
  "computeStats h =
     (let cnt = length (data h);
          tp = totalPrice (data h);
          tb = totalBedrooms (data h);
          avg = (if truthy_num tb then num_div tp tb else Fin 0)
      in h\<lparr>stats := Some \<lparr>count = cnt, avgPricePerBedroom = avg\<rparr>\<rparr>)"

subsection \<open>computeHostRanking\<close>

definition host_key :: "listing \<Rightarrow> string" where
  "host_key l = ToString (field l ''host_id'')"

text \<open>
  One step of the \<open>reduce\<close>: \<open>acc[host] = (acc[host] || 0) + 1\<close>. The read finds an own
  property, else a member of \<open>Object.prototype\<close>, which is truthy and makes \<open>+\<close> append
  \<open>1\<close> to its text. The write goes to an own property, except that under \<open>__proto__\<close>, when
  the object has no own property of that name, it goes to the inherited setter, which
  ignores a value that is not an object.
\<close>

definition count_host :: "host_count obj \<Rightarrow> listing \<Rightarrow> host_count obj" where
  "count_host acc l =
     (let host = host_key l;
          v = (case map_of acc host of
                 Some (Num n) \<Rightarrow> Num ((if n = 0 then 0 else n) + 1)
               | Some (Appended k n) \<Rightarrow> Appended k (n + 1)
               | None \<Rightarrow> if inherited host then Appended host 1 else Num 1)
      in if host = ''__proto__'' \<and> map_of acc host = None then acc else obj_set host v acc)"

definition ranking :: "listing list \<Rightarrow> host_count obj" where
  "ranking dat = foldl count_host [] dat"

text \<open>\<open>b.count - a.count\<close>: a text count is not a numeral, so the difference is \<open>NaN\<close>.\<close>

definition by_count_desc :: "ranking_entry \<Rightarrow> ranking_entry \<Rightarrow> int option" where
  "by_count_desc a b =
     (case (count' a, count' b) of
        (Num m, Num n) \<Rightarrow> Some (int n - int m)
      | _ \<Rightarrow> None)"

definition host_ranking_of ::
  "(ranking_entry list \<Rightarrow> ranking_entry list) \<Rightarrow> listing list \<Rightarrow> ranking_entry list" where
  "host_ranking_of engine dat =
     sort_cmp engine by_count_desc
       (map (\<lambda>(h, n). \<lparr>host = h, count' = n\<rparr>) (Object_entries (ranking dat)))"

definition computeHostRanking ::
  "(ranking_entry list \<Rightarrow> ranking_entry list) \<Rightarrow> handler \<Rightarrow> handler" where
  "computeHostRanking engine h = h\<lparr>hostRanking := Some (host_ranking_of engine (data h))\<rparr>"

subsection \<open>Pinning and the exported view\<close>

definition pinListing :: "jsval \<Rightarrow> handler \<Rightarrow> handler" where
  "pinListing listingId h =
     (if listingId \<notin> set (pinnedIds h) then h\<lparr>pinnedIds := pinnedIds h @ [listingId]\<rparr>
      else h)"

definition is_pinned :: "handler \<Rightarrow> listing \<Rightarrow> bool" where
  "is_pinned h l = (truthy (field l ''id'') \<and> field l ''id'' \<in> set (pinnedIds h))"

definition getPinnedListings :: "handler \<Rightarrow> listing list" where
  "getPinnedListings h = filter (is_pinned h) (data h)"

definition getData :: "handler \<Rightarrow> listing list" where
  "getData h =
     (if length (pinnedIds h) > 0 then
        (let pinnedListings = filter (is_pinned h) (data h);
             nonPinnedListings =
               filter (\<lambda>l. \<not> truthy (field l ''id'') \<or> field l ''id'' \<notin> set (pinnedIds h)) (data h)
         in pinnedListings @ nonPinnedListings)
      else data h)"

text \<open>The text that \<open>exportResults\<close> hands to \<open>fs.writeFile\<close>.\<close>

definition exportResults :: "handler \<Rightarrow> string" where
  "exportResults h = convertToCSV (getData h)"

text \<open>The operations that change the handler, and a sequence of them run in order.\<close>

datatype operation =
  OpFilter criteria | OpComputeStats | OpComputeHostRanking | OpPinListing jsval

fun apply_op ::
  "(ranking_entry list \<Rightarrow> ranking_entry list) \<Rightarrow> handler \<Rightarrow> operation \<Rightarrow> handler" where
  "apply_op engine h (OpFilter c) = filter_listings c h"
| "apply_op engine h OpComputeStats = computeStats h"
| "apply_op engine h OpComputeHostRanking = computeHostRanking engine h"
| "apply_op engine h (OpPinListing i) = pinListing i h"

definition run_ops ::
  "(ranking_entry list \<Rightarrow> ranking_entry list) \<Rightarrow> operation list \<Rightarrow> handler \<Rightarrow> handler" where
  "run_ops engine ops h = foldl (apply_op engine) h ops"

section \<open>Reference notions and example data\<close>

text \<open>
  The reading of the specification: a value is numeric when it is a string that is a
  decimal numeral and nothing else (an optional sign, digits, and optionally a point
  followed by digits); a numeric value is coerced to the number it denotes and every other
  value, malformed or missing, to 0. For the integer coercion the numeral has no point.
\<close>

definition is_numeral :: "string \<Rightarrow> bool" where
  "is_numeral s =
     (let (neg, u) = strip_sign s;
          ip = takeWhile is_digit u;
          r = dropWhile is_digit u
      in ip \<noteq> [] \<and> (r = [] \<or> (hd r = CHR ''.'' \<and> tl r \<noteq> [] \<and> list_all is_digit (tl r))))"

definition is_integer_numeral :: "string \<Rightarrow> bool" where
  "is_integer_numeral s = (let (neg, u) = strip_sign s in u \<noteq> [] \<and> list_all is_digit u)"

definition numeral_value :: "string \<Rightarrow> rat" where
  "numeral_value s =
     (let (neg, u) = strip_sign s;
          ip = takeWhile is_digit u;
          fp = drop 1 (dropWhile is_digit u);
          m = of_int (dec_val ip) + of_int (dec_val fp) / 10 ^ length fp
      in if neg then - m else m)"

definition spec_number :: "jsval \<Rightarrow> jsnum" where
  "spec_number v =
     (case v of
        Str s \<Rightarrow> if is_numeral s then round_double (numeral_value s) else Fin 0
      | _ \<Rightarrow> Fin 0)"

definition spec_integer :: "jsval \<Rightarrow> jsnum" where
  "spec_integer v =
     (case v of
        Str s \<Rightarrow> if is_integer_numeral s then round_double (numeral_value s) else Fin 0
      | _ \<Rightarrow> Fin 0)"

text \<open>
  The average of the specification: the sum of the coerced prices divided by the sum of
  the coerced bedroom counts, and 0 when the bedroom sum is 0.
\<close>

definition spec_avg :: "listing list \<Rightarrow> jsnum" where
  "spec_avg dat =
     (let tp = foldl num_add (Fin 0) (map (\<lambda>l. spec_number (field l ''price'')) dat);
          tb = foldl num_add (Fin 0) (map (\<lambda>l. spec_number (field l ''bedrooms'')) dat)
      in if tb = Fin 0 \<or> tb = NegZero then Fin 0 else num_div tp tb)"

text \<open>
  Texts in which the parsers find no literal: after the leading white space and an optional
  sign the text starts neither with \<open>Infinity\<close>, nor with a digit, nor with a point
  followed by a digit (\<open>parseFloat\<close>); or it does not start with a digit (\<open>parseInt\<close>).
  And the plain numerals: one or more decimal digits and nothing else.
\<close>

definition no_numeric_prefix :: "string \<Rightarrow> bool" where
  "no_numeric_prefix s =
     (let (neg, u) = strip_sign (dropWhile is_ws s)
      in take 8 u \<noteq> ''Infinity'' \<and>
         (case u of
            [] \<Rightarrow> True
          | c # cs \<Rightarrow> \<not> is_digit c \<and>
              \<not> (c = CHR ''.'' \<and> (case cs of [] \<Rightarrow> False | d # _ \<Rightarrow> is_digit d))))"

definition no_leading_digit :: "string \<Rightarrow> bool" where
  "no_leading_digit s =
     (let (neg, u) = strip_sign (dropWhile is_ws s)
      in case u of [] \<Rightarrow> True | c # cs \<Rightarrow> \<not> is_digit c)"

definition plain_numeral :: "string \<Rightarrow> bool" where
  "plain_numeral s = (s \<noteq> [] \<and> list_all is_digit s)"

text \<open>
  The keys of a list in the order in which they are first met, the enumeration order of
  \<open>Object.keys\<close> applied to a list of keys, and the number held by a count.
\<close>

primrec first_seen :: "string list \<Rightarrow> string list" where
  "first_seen [] = []"
| "first_seen (k # ks) = k # filter (\<lambda>x. x \<noteq> k) (first_seen ks)"

definition key_order :: "string list \<Rightarrow> string list" where
  "key_order ks =
     sort_key dec_val (filter is_array_index ks) @ filter (\<lambda>k. \<not> is_array_index k) ks"

fun count_value :: "host_count \<Rightarrow> nat" where
  "count_value (Num n) = n"
| "count_value (Appended k n) = 0"

text \<open>Example listings, and a numeral of 310 digits, which is beyond the largest double.\<close>

definition ex_listing :: "string \<Rightarrow> listing" where
  "ex_listing i = [(''id'', Str i)]"

definition ex_rooms :: "string \<Rightarrow> string \<Rightarrow> listing" where
  "ex_rooms b p = [(''bedrooms'', Str b), (''price'', Str p)]"

definition ex_host :: "string \<Rightarrow> listing" where
  "ex_host i = [(''host_id'', Str i)]"

definition ex_huge :: string where
  "ex_huge = CHR ''1'' # replicate 309 (CHR ''0'')"

section \<open>Properties\<close>

subsection \<open>Rounding\<close>

lemma round_half_even_int: "round_half_even (of_int m) = m"
  by (simp add: round_half_even_def)

lemma round_double_not_NaN: "round_double q \<noteq> NaN"
  by (simp add: round_double_def Let_def)

text \<open>An integer below \<open>2^53\<close> in absolute value is a double: rounding leaves it as it is.\<close>

lemma round_double_abs:
  assumes "0 < n" and "n < 2 ^ 53" and "\<bar>q\<bar> = of_int n"
  shows "round_double q = Fin q"
proof -
  let ?e = "bitlen n - 1"
  from assms(1) have b: "2 ^ nat ?e \<le> n" "n < 2 ^ nat (bitlen n)"
    using bitlen_bounds [of n] by simp_all
  from assms(1) have e0: "0 \<le> ?e"
    using bitlen_eq_zero_iff [of n] bitlen_nonneg [of n] by simp
  have "(2::int) ^ nat ?e < 2 ^ 53" by (rule le_less_trans [OF b(1) assms(2)])
  then have "nat ?e < 53" by (rule power_less_imp_less_exp [rotated]) simp
  then have e52: "?e \<le> 52" by simp
  have a1: "(1::rat) \<le> of_int n" using assms(1) by simp
  have il: "ilog2 (of_int n) = ?e"
    using a1 by (simp add: ilog2_def)
  have p: "max (ilog2 (of_int n)) (- 1022) - 52 = ?e - 52"
    using e0 by (simp add: il)
  have pw: "pow2 (?e - 52) = 1 / 2 ^ nat (52 - ?e)"
  proof (cases "?e = 52")
    case True
    then show ?thesis by (simp add: pow2_def)
  next
    case False
    with e52 have "\<not> 0 \<le> ?e - 52" by simp
    then show ?thesis unfolding pow2_def by (simp only: if_False) simp
  qed
  have q: "of_int n / pow2 (?e - 52) = (of_int (n * 2 ^ nat (52 - ?e)) :: rat)"
    unfolding pw by simp
  have r: "round_half_even (of_int n / pow2 (?e - 52)) = n * 2 ^ nat (52 - ?e)"
    unfolding q by (rule round_half_even_int)
  have v: "of_int (n * 2 ^ nat (52 - ?e)) * pow2 (?e - 52) = (of_int n :: rat)"
    unfolding pw by simp
  have "(of_int n :: rat) < of_int (2 ^ 53)" using assms(2) by (simp only: of_int_less_iff)
  also have "\<dots> < pow2 1024" by (simp add: pow2_def)
  finally have big: "\<not> pow2 1024 \<le> (of_int n :: rat)" by simp
  have nz: "n * 2 ^ nat (52 - ?e) \<noteq> 0" using assms(1) by simp
  have q0: "q \<noteq> 0" using assms(1,3) by auto
  have "round_double q = Fin (if q > 0 then of_int n else - of_int n)"
    unfolding round_double_def Let_def assms(3) p r v
    using big nz q0 by simp
  also have "(if q > 0 then of_int n else - of_int n) = q"
    using assms(3) by (auto simp: abs_if split: if_splits)
  finally show ?thesis .
qed

lemma round_double_int:
  assumes "\<bar>k\<bar> < 2 ^ 53"
  shows "round_double (of_int k) = Fin (of_int k)"
proof (cases "k = 0")
  case True
  then show ?thesis by (simp add: round_double_def)
next
  case False
  then have "0 < \<bar>k\<bar>" by simp
  moreover have "\<bar>of_int k :: rat\<bar> = of_int \<bar>k\<bar>" by simp
  ultimately show ?thesis using assms by (intro round_double_abs [of "\<bar>k\<bar>"])
qed

lemma floor_le_round_half_even: "\<lfloor>x\<rfloor> \<le> round_half_even x"
  by (simp add: round_half_even_def Let_def)

text \<open>From \<open>2^1024\<close> on, rounding gives an infinity.\<close>

lemma round_double_overflow:
  assumes "2 ^ 1024 \<le> \<bar>q\<bar>"
  shows "round_double q = signed_inf (q < 0)"
proof -
  let ?a = "\<bar>q\<bar>"
  let ?n = "\<lfloor>?a\<rfloor>"
  let ?e = "bitlen ?n - 1"
  have big: "(2::int) ^ 1024 \<le> ?n"
    using assms by (simp add: le_floor_iff)
  then have n0: "0 < ?n" by (rule less_le_trans [rotated]) simp
  have a1: "1 \<le> ?a" using assms by (rule order_trans [rotated]) simp
  have b: "2 ^ nat ?e \<le> ?n" "?n < 2 ^ nat (bitlen ?n)"
    using bitlen_bounds [OF n0] by simp_all
  have "(2::int) ^ 1024 < 2 ^ nat (bitlen ?n)" by (rule le_less_trans [OF big b(2)])
  then have "1024 < nat (bitlen ?n)" by (rule power_less_imp_less_exp [rotated]) simp
  then have e: "1024 \<le> ?e" by simp
  let ?p = "?e - 52"
  have il: "ilog2 ?a = ?e" using a1 by (simp add: ilog2_def)
  have p: "max (ilog2 ?a) (- 1022) - 52 = ?p" using e by (simp add: il)
  have pp: "pow2 ?p = 2 ^ nat ?p" using e by (simp add: pow2_def)
  have ne: "nat ?e = nat ?p + 52" using e by simp
  have "(of_int (2 ^ nat ?e) :: rat) \<le> of_int ?n" using b(1) by (simp only: of_int_le_iff)
  also have "\<dots> \<le> ?a" by simp
  finally have ae: "(2::rat) ^ nat ?e \<le> ?a" by simp
  have x: "(2::rat) ^ 52 \<le> ?a / pow2 ?p"
  proof -
    have "(2::rat) ^ 52 * 2 ^ nat ?p = 2 ^ nat ?e" by (simp add: ne power_add)
    with ae have "(2::rat) ^ 52 * 2 ^ nat ?p \<le> ?a" by simp
    then show ?thesis unfolding pp by (simp add: pos_le_divide_eq)
  qed
  have "(2::int) ^ 52 \<le> \<lfloor>?a / pow2 ?p\<rfloor>"
    using x by (simp add: le_floor_iff)
  then have n: "(2::int) ^ 52 \<le> round_half_even (?a / pow2 ?p)"
    using floor_le_round_half_even [of "?a / pow2 ?p"] by linarith
  have "(2::rat) ^ 1024 \<le> 2 ^ nat ?e"
    using e by (intro power_increasing) simp_all
  also have "\<dots> = 2 ^ 52 * 2 ^ nat ?p" by (simp add: ne power_add)
  also have "\<dots> \<le> of_int (round_half_even (?a / pow2 ?p)) * 2 ^ nat ?p"
  proof (rule mult_right_mono)
    have "(of_int (2 ^ 52) :: rat) \<le> of_int (round_half_even (?a / pow2 ?p))"
      using n by (simp only: of_int_le_iff)
    then show "(2::rat) ^ 52 \<le> of_int (round_half_even (?a / pow2 ?p))" by simp
  qed simp
  finally have v: "pow2 1024 \<le> of_int (round_half_even (?a / pow2 ?p)) * pow2 ?p"
    unfolding pp by (simp add: pow2_def)
  have q0: "q \<noteq> 0" using assms by auto
  show ?thesis
    unfolding round_double_def Let_def p
    using v q0 by (auto simp: signed_inf_def)
qed

lemma two_1024_le: "(2::int) ^ 1024 \<le> 10 ^ 309"
proof -
  have "(2::int) ^ 93 \<le> 10 ^ 28" by simp
  then have "((2::int) ^ 93) ^ 11 \<le> (10 ^ 28) ^ 11" by (rule power_mono) simp
  then have "(2::int) ^ (93 * 11) \<le> 10 ^ (28 * 11)" by (simp only: power_mult)
  moreover have "93 * 11 = (1023::nat)" "28 * 11 = (308::nat)" by simp_all
  ultimately have "(2::int) ^ 1023 \<le> 10 ^ 308" by (simp only:)
  moreover have "(0::int) \<le> 2 ^ 1023" by (rule zero_le_power) simp
  ultimately have "2 * (2::int) ^ 1023 \<le> 10 * 10 ^ 308" by (intro mult_mono) simp_all
  then have "(2::int) ^ Suc 1023 \<le> 10 ^ Suc 308" by (simp only: power_Suc)
  moreover have "Suc 1023 = 1024" "Suc 308 = 309" by simp_all
  ultimately show ?thesis by (simp only:)
qed

lemma num_div_Fin:
  "a \<noteq> 0 \<Longrightarrow> b \<noteq> 0 \<Longrightarrow> num_div (Fin a) (Fin b) = round_double (a / b)"
  unfolding num_div_def Let_def
  by (simp only: jsnum.distinct is_inf.simps num_val.simps if_False simp_thms)

lemma num_div_zero: "b \<noteq> 0 \<Longrightarrow> num_div (Fin 0) (Fin b) = signed_zero (b < 0)"
  unfolding num_div_def Let_def
  by (simp only: jsnum.distinct is_inf.simps num_val.simps is_neg.simps if_False if_True
      simp_thms less_irrefl)

lemma round_double_zero: "round_double 0 = Fin 0"
  by (simp add: round_double_def)

lemma num_div_NaN: "num_div a NaN = NaN"
  unfolding num_div_def Let_def by (simp only: simp_thms if_True)

lemma num_or_Fin: "num_or (Fin q) (Fin 0) = Fin q"
  by (simp add: num_or_def)

lemma num_or_NaN: "num_or NaN b = b"
  by (simp add: num_or_def)

lemma falsy_num: "(\<not> truthy_num v) = (v = Fin 0 \<or> v = NegZero \<or> v = NaN)"
  by (cases v) auto

subsection \<open>Literals\<close>

lemma is_digit_iff: "is_digit c \<longleftrightarrow> c \<in> set ''0123456789''"
  by (auto simp: is_digit_in_def digit_table_def)

lemma digit_val_range: "0 \<le> digit_val digit_table c \<and> digit_val digit_table c \<le> 9"
  by (simp add: digit_val_def digit_table_def)

lemma foldl_digits_bound:
  assumes "0 \<le> a"
  shows "0 \<le> foldl (\<lambda>a c. 10 * a + digit_val digit_table c) a s
     \<and> foldl (\<lambda>a c. 10 * a + digit_val digit_table c) a s < (a + 1) * 10 ^ length s"
  using assms
proof (induction s arbitrary: a)
  case Nil
  then show ?case by simp
next
  case (Cons c cs)
  let ?d = "digit_val digit_table c"
  have d: "0 \<le> ?d" "?d \<le> 9" using digit_val_range [of c] by simp_all
  with Cons.prems have a': "0 \<le> 10 * a + ?d" by simp
  from Cons.IH [OF a'] have ih:
    "0 \<le> foldl (\<lambda>a c. 10 * a + digit_val digit_table c) (10 * a + ?d) cs"
    "foldl (\<lambda>a c. 10 * a + digit_val digit_table c) (10 * a + ?d) cs
       < (10 * a + ?d + 1) * 10 ^ length cs"
    by simp_all
  have "(10 * a + ?d + 1) * 10 ^ length cs \<le> (10 * a + 10) * 10 ^ length cs"
    using d by (intro mult_right_mono) simp_all
  also have "\<dots> = (a + 1) * 10 ^ length (c # cs)" by (simp add: algebra_simps)
  finally have "(10 * a + ?d + 1) * 10 ^ length cs \<le> (a + 1) * 10 ^ length (c # cs)" .
  with ih(2) have "foldl (\<lambda>a c. 10 * a + digit_val digit_table c) (10 * a + ?d) cs
       < (a + 1) * 10 ^ length (c # cs)"
    by (rule less_le_trans)
  with ih(1) show ?case by simp
qed

lemma dec_val_bound: "0 \<le> dec_val s \<and> dec_val s < 10 ^ length s"
  using foldl_digits_bound [of 0 s] by (simp add: digits_val_def)

lemma dec_val_small:
  assumes "length s \<le> 15"
  shows "\<bar>dec_val s\<bar> < 2 ^ 53"
proof -
  have "dec_val s < 10 ^ length s" "0 \<le> dec_val s" using dec_val_bound [of s] by simp_all
  moreover have "(10::int) ^ length s \<le> 10 ^ 15"
    using assms by (intro power_increasing) simp_all
  moreover have "(10::int) ^ 15 < 2 ^ 53" by simp
  ultimately show ?thesis by linarith
qed

lemma signed_numeral_literals:
  assumes "plain_numeral u" and st: "strip_sign (dropWhile is_ws s) = (neg, u)"
  shows "float_literal s = NumLiteral neg (of_int (dec_val u))"
    and "int_literal s = NumLiteral neg (of_int (dec_val u))"
proof -
  from assms(1) obtain c cs where u: "u = c # cs" and c: "is_digit c"
    and cs: "list_all is_digit cs"
    by (cases u) (auto simp: plain_numeral_def)
  from c have nI: "c \<noteq> CHR ''I''"
    by (auto simp: is_digit_iff)
  have all: "\<forall>x\<in>set u. is_digit x" using c cs u by (simp add: list_all_iff)
  have tw: "takeWhile is_digit u = u" "dropWhile is_digit u = []"
    using all by (simp_all add: takeWhile_eq_all_conv)
  have inf: "take 8 u \<noteq> ''Infinity''" using nI by (simp add: u)
  have ne: "u \<noteq> []" by (simp add: u)
  show "float_literal s = NumLiteral neg (of_int (dec_val u))"
    unfolding float_literal_def st using inf ne
    by (simp add: tw exponent_part_def scale10_def digits_val_def)
  have nx: "take 2 u \<noteq> ''0x''" "take 2 u \<noteq> ''0X''"
  proof -
    have "\<not> is_digit CHR ''x''" "\<not> is_digit CHR ''X''"
      by (simp_all add: is_digit_iff)
    then show "take 2 u \<noteq> ''0x''" "take 2 u \<noteq> ''0X''"
      using cs by (cases cs; auto simp: u)+
  qed
  show "int_literal s = NumLiteral neg (of_int (dec_val u))"
    unfolding int_literal_def st using nx ne
    by (simp add: tw)
qed

lemma plain_numeral_sign:
  assumes "plain_numeral s"
  shows "strip_sign (dropWhile is_ws s) = (False, s)"
    and "strip_sign (dropWhile is_ws (CHR ''-'' # s)) = (True, s)"
    and "strip_sign s = (False, s)"
proof -
  from assms obtain c cs where s: "s = c # cs" and c: "is_digit c"
    by (cases s) (auto simp: plain_numeral_def)
  from c have "\<not> is_ws c" "c \<noteq> CHR ''-''" "c \<noteq> CHR ''+''"
    by (auto simp: is_digit_iff is_ws_def)
  then show "strip_sign (dropWhile is_ws s) = (False, s)" "strip_sign s = (False, s)"
    by (simp_all add: s)
  show "strip_sign (dropWhile is_ws (CHR ''-'' # s)) = (True, s)"
    by (simp add: is_ws_def)
qed

lemma plain_numeral_literals:
  assumes "plain_numeral s"
  shows "float_literal s = NumLiteral False (of_int (dec_val s))"
    and "int_literal s = NumLiteral False (of_int (dec_val s))"
  using signed_numeral_literals [OF assms plain_numeral_sign(1) [OF assms]] by simp_all

lemma negative_numeral_literals:
  assumes "plain_numeral s"
  shows "float_literal (CHR ''-'' # s) = NumLiteral True (of_int (dec_val s))"
    and "int_literal (CHR ''-'' # s) = NumLiteral True (of_int (dec_val s))"
  using signed_numeral_literals [OF assms plain_numeral_sign(2) [OF assms]] by simp_all

lemma plain_numeral_is_numeral:
  assumes "plain_numeral s"
  shows "is_numeral s" and "is_numeral (CHR ''-'' # s)"
    and "numeral_value s = of_int (dec_val s)"
    and "numeral_value (CHR ''-'' # s) = - of_int (dec_val s)"
proof -
  have all: "\<forall>x\<in>set s. is_digit x" and ne: "s \<noteq> []"
    using assms by (simp_all add: plain_numeral_def list_all_iff)
  have tw: "takeWhile is_digit s = s" "dropWhile is_digit s = []"
    using all by (simp_all add: takeWhile_eq_all_conv)
  note st = plain_numeral_sign(3) [OF assms]
  show "is_numeral s" unfolding is_numeral_def st using ne all by (simp add: tw)
  show "is_numeral (CHR ''-'' # s)" unfolding is_numeral_def using ne all by (simp add: tw)
  show "numeral_value s = of_int (dec_val s)"
    unfolding numeral_value_def st by (simp add: tw digits_val_def)
  show "numeral_value (CHR ''-'' # s) = - of_int (dec_val s)"
    unfolding numeral_value_def by (simp add: tw digits_val_def)
qed

text \<open>The numeral of 310 digits.\<close>

lemma foldl_zeros:
  "foldl (\<lambda>a c. 10 * a + digit_val digit_table c) a (replicate n (CHR ''0'')) = a * 10 ^ n"
  by (induction n arbitrary: a) (simp_all add: digit_val_def digit_table_def)

lemma ex_huge_facts:
  "plain_numeral ex_huge" "dec_val ex_huge = 10 ^ 309" "(2::rat) ^ 1024 \<le> of_int (dec_val ex_huge)"
proof -
  show "plain_numeral ex_huge"
    by (simp add: plain_numeral_def ex_huge_def is_digit_iff list_all_iff)
  show d: "dec_val ex_huge = 10 ^ 309"
    using foldl_zeros [of 1 309]
    by (simp add: digits_val_def ex_huge_def digit_val_def digit_table_def)
  have "(of_int (2 ^ 1024) :: rat) \<le> of_int (10 ^ 309)"
    using two_1024_le by (simp only: of_int_le_iff)
  then show "(2::rat) ^ 1024 \<le> of_int (dec_val ex_huge)"
    by (simp only: d of_int_power of_int_numeral)
qed

lemma ex_huge_numbers:
  "parseInt (Str ex_huge) = PosInf" "parseInt (Str (CHR ''-'' # ex_huge)) = NegInf"
  "spec_number (Str ex_huge) = PosInf" "spec_number (Str (CHR ''-'' # ex_huge)) = NegInf"
proof -
  let ?q = "of_int (dec_val ex_huge) :: rat"
  note f = ex_huge_facts
  have pos: "0 < ?q" "?q \<noteq> 0" using f(3) by (auto intro: less_le_trans [rotated])
  have up: "round_double ?q = PosInf"
    using round_double_overflow [of ?q] f(3) pos by (simp add: signed_inf_def)
  have dn: "round_double (- ?q) = NegInf"
    using round_double_overflow [of "- ?q"] f(3) pos by (simp add: signed_inf_def)
  show "parseInt (Str ex_huge) = PosInf"
    using up pos by (simp add: parseInt_def plain_numeral_literals [OF f(1)] literal_number_def)
  show "parseInt (Str (CHR ''-'' # ex_huge)) = NegInf"
    using dn pos
    by (simp add: parseInt_def negative_numeral_literals [OF f(1)] literal_number_def)
  show "spec_number (Str ex_huge) = PosInf"
    using up by (simp add: spec_number_def plain_numeral_is_numeral [OF f(1)])
  show "spec_number (Str (CHR ''-'' # ex_huge)) = NegInf"
    using dn by (simp add: spec_number_def plain_numeral_is_numeral [OF f(1)])
qed

lemma literal_number_small:
  assumes "\<bar>k\<bar> < 2 ^ 53"
  shows "literal_number (NumLiteral False (of_int k)) = Fin (of_int k)"
  using round_double_int [OF assms]
  by (simp add: literal_number_def signed_zero_def)

lemma parse_plain_numeral:
  assumes "plain_numeral s" and "length s \<le> 15"
  shows "parseInt (Str s) = Fin (of_int (dec_val s))"
    and "parseFloat (Str s) = Fin (of_int (dec_val s))"
  using plain_numeral_literals [OF assms(1)] literal_number_small [OF dec_val_small [OF assms(2)]]
  by (simp_all add: parseInt_def parseFloat_def)

lemmas literal_eval = float_literal_def int_literal_def is_ws_def is_digit_in_def digit_val_def
  digits_val_def digit_table_def hex_table_def exponent_part_def scale10_def

lemma literal_number_NaN: "literal_number lit = NaN \<longleftrightarrow> lit = NoLiteral"
  by (cases lit) (auto simp: literal_number_def signed_inf_def signed_zero_def round_double_not_NaN)

lemma float_literal_none: "float_literal s = NoLiteral \<longleftrightarrow> no_numeric_prefix s"
  unfolding float_literal_def no_numeric_prefix_def Let_def
  by (auto split: prod.splits list.splits if_splits simp: takeWhile_eq_Nil_iff)

lemma parseFloat_NaN_iff: "parseFloat v = NaN \<longleftrightarrow> no_numeric_prefix (ToString v)"
  by (simp add: parseFloat_def literal_number_NaN float_literal_none)

lemma int_literal_none: "no_leading_digit s \<Longrightarrow> int_literal s = NoLiteral"
proof -
  assume a: "no_leading_digit s"
  obtain neg u where st: "strip_sign (dropWhile is_ws s) = (neg, u)" by force
  from a st have u: "u = [] \<or> \<not> is_digit (hd u)"
    by (auto simp: no_leading_digit_def split: list.splits)
  have d0: "is_digit CHR ''0''" by (simp add: is_digit_iff)
  from u d0 have nx: "take 2 u \<noteq> ''0x''" "take 2 u \<noteq> ''0X''"
    by (cases u; auto)+
  from u have "takeWhile is_digit u = []"
    by (cases u) auto
  then show ?thesis
    unfolding int_literal_def st using nx by simp
qed

lemma parseInt_no_digit: "no_leading_digit (ToString v) \<Longrightarrow> parseInt v = NaN"
  by (simp add: parseInt_def int_literal_none literal_number_def)

lemma listing_valid_conj:
  "listing_valid c l = (price_step c l True \<and> rooms_step c l True \<and> review_step c l True)"
  by (auto simp: listing_valid_def price_step_def rooms_step_def review_step_def Let_def
      split: option.splits)

subsection \<open>The working set\<close>

lemma data_apply_op: "subseq (data (apply_op engine h x)) (data h)"
  by (cases x) (simp_all add: filter_listings_def computeStats_def computeHostRanking_def
      pinListing_def Let_def)

lemma data_run_ops: "subseq (data (run_ops engine ops h)) (data h)"
  unfolding run_ops_def
proof (induction ops arbitrary: h)
  case Nil
  show ?case by simp
next
  case (Cons x xs)
  have "subseq (data (foldl (apply_op engine) (apply_op engine h x) xs)) (data (apply_op engine h x))"
    by (rule Cons.IH)
  then show ?case
    using data_apply_op [of engine h x] by (auto intro: subseq_order.trans)
qed

text \<open>
  C7: after any sequence of operations the working set is a subsequence of the loaded
  records (and of the working set the sequence started from), in their original order;
  a \<open>filter\<close> call never makes the working set longer, and \<open>pinListing\<close> leaves the
  working set as it is.
\<close>

theorem working_set_subsequence:
  "subseq (data (run_ops engine ops (createHandler listings))) listings
   \<and> subseq (data (run_ops engine ops h)) (data h)
   \<and> length (data (filter_listings c h)) \<le> length (data h)
   \<and> data (pinListing i h) = data h"
proof -
  have "subseq (data (run_ops engine ops (createHandler listings))) (data (createHandler listings))"
    by (rule data_run_ops)
  moreover have "data (createHandler listings) = listings"
    by (simp add: createHandler_def)
  moreover have "length (data (filter_listings c h)) \<le> length (data h)"
    by (simp add: filter_listings_def)
  moreover have "data (pinListing i h) = data h"
    by (simp add: pinListing_def)
  ultimately show ?thesis
    by (simp add: data_run_ops)
qed

theorem working_set_subsequence_witness:
  "subseq
     (data (run_ops id
        [OpPinListing (Str ''A''),
         OpFilter \<lparr>priceRange = None, rooms = Some (Fin 1), reviewScore = None\<rparr>]
        (createHandler [ex_listing ''A'', ex_listing ''B''])))
     [ex_listing ''A'', ex_listing ''B'']"
  using working_set_subsequence
    [of id "[OpPinListing (Str ''A''),
          OpFilter \<lparr>priceRange = None, rooms = Some (Fin 1), reviewScore = None\<rparr>]"
        "[ex_listing ''A'', ex_listing ''B'']"]
  by simp

subsection \<open>Pinned listings and the exported view\<close>

lemma getData_split:
  "getData h = getPinnedListings h @ filter (\<lambda>l. \<not> is_pinned h l) (data h)"
proof (cases "pinnedIds h = []")
  case True
  then have "\<And>l. \<not> is_pinned h l" by (simp add: is_pinned_def)
  with True show ?thesis by (simp add: getData_def getPinnedListings_def)
next
  case False
  then show ?thesis
    by (simp add: getData_def getPinnedListings_def Let_def is_pinned_def)
qed

lemma mset_getData: "mset (getData h) = mset (data h)"
  by (simp add: getData_split getPinnedListings_def)

text \<open>
  C2: with a non-empty pinned-id set \<open>getData\<close> returns the pinned listings of the working
  set, in working-set order, followed by the other listings of the working set in their
  original order; with an empty pinned-id set it returns the working set. Either way each
  record of the working set occurs in the result as often as in the working set. With
  pinned ids A, B and working set C, A, D, B the result is A, B, C, D.
\<close>

theorem getData_pinned_first:
  "getData h =
     (if pinnedIds h = [] then data h
      else getPinnedListings h @ filter (\<lambda>l. \<not> is_pinned h l) (data h))
   \<and> mset (getData h) = mset (data h)
   \<and> getData \<lparr>data = [ex_listing ''C'', ex_listing ''A'', ex_listing ''D'', ex_listing ''B''],
               pinnedIds = [Str ''A'', Str ''B''], stats = None, hostRanking = None\<rparr>
       = [ex_listing ''A'', ex_listing ''B'', ex_listing ''C'', ex_listing ''D'']"
proof -
  have "getData \<lparr>data = [ex_listing ''C'', ex_listing ''A'', ex_listing ''D'', ex_listing ''B''],
               pinnedIds = [Str ''A'', Str ''B''], stats = None, hostRanking = None\<rparr>
       = [ex_listing ''A'', ex_listing ''B'', ex_listing ''C'', ex_listing ''D'']"
    by (simp add: getData_def is_pinned_def ex_listing_def field_def)
  moreover have "pinnedIds h = [] \<Longrightarrow> getData h = data h"
    by (simp add: getData_def)
  ultimately show ?thesis
    using getData_split [of h] mset_getData [of h] by simp
qed

theorem getData_pinned_first_witness:
  "getData (pinListing (Str ''B'') (createHandler [ex_listing ''A'', ex_listing ''B'']))
     = [ex_listing ''B'', ex_listing ''A'']"
  using getData_pinned_first
    [of "pinListing (Str ''B'') (createHandler [ex_listing ''A'', ex_listing ''B''])"]
  by (simp add: pinListing_def createHandler_def getPinnedListings_def is_pinned_def
      ex_listing_def field_def)

text \<open>
  C10: a listing of the working set whose \<open>id\<close> is missing or the empty string is not among
  the pinned listings, also right after its own id value has been pinned, and \<open>getData\<close>
  returns it in the part that follows the pinned listings.
\<close>

theorem falsy_id_never_pinned:
  assumes "field l ''id'' = Undefined \<or> field l ''id'' = Str []"
    and "l \<in> set (data h)"
  shows "l \<notin> set (getPinnedListings h)
     \<and> l \<notin> set (getPinnedListings (pinListing (field l ''id'') h))
     \<and> getData h = getPinnedListings h @ filter (\<lambda>x. \<not> is_pinned h x) (data h)
     \<and> l \<in> set (filter (\<lambda>x. \<not> is_pinned h x) (data h))"
proof -
  from assms(1) have "\<not> truthy (field l ''id'')" by auto
  then have "\<And>g. \<not> is_pinned g l" by (simp add: is_pinned_def)
  with assms(2) show ?thesis
    by (simp add: getPinnedListings_def getData_split)
qed

theorem falsy_id_never_pinned_witness:
  "getPinnedListings (pinListing (Str []) (createHandler [ex_listing [], ex_listing ''A''])) = []
   \<and> getData (pinListing (Str []) (createHandler [ex_listing [], ex_listing ''A'']))
       = [ex_listing [], ex_listing ''A'']"
proof -
  let ?h = "pinListing (Str []) (createHandler [ex_listing [], ex_listing ''A''])"
  have a: "field (ex_listing []) ''id'' = Undefined \<or> field (ex_listing []) ''id'' = Str []"
    by (simp add: ex_listing_def field_def)
  have b: "ex_listing [] \<in> set (data ?h)"
    by (simp add: pinListing_def createHandler_def)
  show ?thesis
    using falsy_id_never_pinned [OF a b]
    by (simp add: pinListing_def createHandler_def getPinnedListings_def is_pinned_def
        ex_listing_def field_def)
qed

subsection \<open>computeStats\<close>

lemma price_term_none: "no_numeric_prefix (ToString (field l ''price'')) \<Longrightarrow> price_term l = Fin 0"
  by (simp add: price_term_def parseFloat_NaN_iff [symmetric] num_or_NaN)

lemma bedrooms_term_none:
  "no_leading_digit (ToString (field l ''bedrooms'')) \<Longrightarrow> bedrooms_term l = Fin 0"
  by (simp add: bedrooms_term_def parseInt_no_digit num_or_NaN)

lemma price_term_plain:
  "field l ''price'' = Str s \<Longrightarrow> plain_numeral s \<Longrightarrow> length s \<le> 15 \<Longrightarrow>
   price_term l = Fin (of_int (dec_val s))"
  by (simp add: price_term_def parse_plain_numeral num_or_Fin)

lemma bedrooms_term_plain:
  "field l ''bedrooms'' = Str s \<Longrightarrow> plain_numeral s \<Longrightarrow> length s \<le> 15 \<Longrightarrow>
   bedrooms_term l = Fin (of_int (dec_val s))"
  by (simp add: bedrooms_term_def parse_plain_numeral num_or_Fin)

lemma totals_as_sums:
  "totalPrice dat = foldl num_add (Fin 0) (map price_term dat)"
  "totalBedrooms dat = foldl num_add (Fin 0) (map bedrooms_term dat)"
  by (simp_all add: totalPrice_def totalBedrooms_def foldl_map)

lemma computeStats_stats:
  "stats (computeStats h) =
     Some \<lparr>count = length (data h),
           avgPricePerBedroom =
             (if totalBedrooms (data h) = Fin 0 \<or> totalBedrooms (data h) = NegZero
                 \<or> totalBedrooms (data h) = NaN
              then Fin 0 else num_div (totalPrice (data h)) (totalBedrooms (data h)))\<rparr>"
  using falsy_num [of "totalBedrooms (data h)"]
  by (auto simp: computeStats_def Let_def)

lemmas example_eval = field_def ex_rooms_def ex_listing_def ex_host_def createHandler_def

text \<open>
  C1, as the code has it: \<open>computeStats\<close> stores a snapshot whose \<open>count\<close> is the number of
  records of the working set and whose \<open>avgPricePerBedroom\<close> is the sum of the prices
  divided by the sum of the bedroom counts, both sums taken in double arithmetic, and 0
  when the bedroom sum is zero or \<open>NaN\<close>. A price is read by \<open>parseFloat\<close> and a bedroom
  count by \<open>parseInt\<close>, which take the numeral at the start of the text: a text with no
  such numeral counts as 0, and a plain numeral of at most 15 digits as its value. On an
  empty working set the snapshot is count 0, average 0.
\<close>

theorem computeStats_snapshot:
  "stats (computeStats h) =
     Some \<lparr>count = length (data h),
           avgPricePerBedroom =
             (if totalBedrooms (data h) = Fin 0 \<or> totalBedrooms (data h) = NegZero
                 \<or> totalBedrooms (data h) = NaN
              then Fin 0 else num_div (totalPrice (data h)) (totalBedrooms (data h)))\<rparr>
   \<and> totalPrice (data h) = foldl num_add (Fin 0) (map price_term (data h))
   \<and> totalBedrooms (data h) = foldl num_add (Fin 0) (map bedrooms_term (data h))
   \<and> stats (computeStats (h\<lparr>data := []\<rparr>)) = Some \<lparr>count = 0, avgPricePerBedroom = Fin 0\<rparr>
   \<and> (no_numeric_prefix (ToString (field lm ''price'')) \<longrightarrow> price_term lm = Fin 0)
   \<and> (no_leading_digit (ToString (field lm ''bedrooms'')) \<longrightarrow> bedrooms_term lm = Fin 0)
   \<and> (field lp ''price'' = Str sp \<and> plain_numeral sp \<and> length sp \<le> 15 \<longrightarrow>
        price_term lp = Fin (of_int (dec_val sp)))
   \<and> (field lp ''bedrooms'' = Str sb \<and> plain_numeral sb \<and> length sb \<le> 15 \<longrightarrow>
        bedrooms_term lp = Fin (of_int (dec_val sb)))"
proof -
  have "stats (computeStats (h\<lparr>data := []\<rparr>)) = Some \<lparr>count = 0, avgPricePerBedroom = Fin 0\<rparr>"
    by (simp add: computeStats_def totalBedrooms_def)
  then show ?thesis
    using computeStats_stats [of h] totals_as_sums [of "data h"]
      price_term_none [of lm] bedrooms_term_none [of lm]
      price_term_plain [of lp sp] bedrooms_term_plain [of lp sb]
    by simp
qed

theorem computeStats_snapshot_witness:
  "stats (computeStats (filter_listings
       \<lparr>priceRange = None, rooms = Some (Fin 1), reviewScore = None\<rparr>
       (createHandler [ex_rooms ''1'' ''100'', ex_rooms ''2'' ''150'', ex_rooms ''0'' ''0''])))
   = Some \<lparr>count = 2, avgPricePerBedroom = Fin (5864062014805333 / 70368744177664)\<rparr>
   \<and> price_term (ex_rooms ''x'' ''$100'') = Fin 0
   \<and> bedrooms_term (ex_rooms ''x'' ''$100'') = Fin 0
   \<and> price_term (ex_rooms ''1'' ''100'') = Fin 100
   \<and> bedrooms_term (ex_rooms ''1'' ''100'') = Fin 1"
proof -
  let ?c = "\<lparr>priceRange = None, rooms = Some (Fin 1), reviewScore = None\<rparr>"
  let ?h = "filter_listings ?c
       (createHandler [ex_rooms ''1'' ''100'', ex_rooms ''2'' ''150'', ex_rooms ''0'' ''0''])"
  have pl: "plain_numeral ''1''" "plain_numeral ''2''" "plain_numeral ''0''"
    "plain_numeral ''100''" "plain_numeral ''150''"
    by (simp_all add: plain_numeral_def is_digit_iff)
  have dv: "dec_val ''1'' = 1" "dec_val ''2'' = 2" "dec_val ''0'' = 0"
    "dec_val ''100'' = 100" "dec_val ''150'' = 150"
    by (simp_all add: digits_val_def digit_val_def digit_table_def)
  have b: "bedrooms_term (ex_rooms ''1'' ''100'') = Fin 1"
    "bedrooms_term (ex_rooms ''2'' ''150'') = Fin 2"
    "bedrooms_term (ex_rooms ''0'' ''0'') = Fin 0"
    using bedrooms_term_plain [of "ex_rooms ''1'' ''100''" "''1''"]
      bedrooms_term_plain [of "ex_rooms ''2'' ''150''" "''2''"]
      bedrooms_term_plain [of "ex_rooms ''0'' ''0''" "''0''"]
    by (simp_all add: example_eval pl dv)
  have p: "price_term (ex_rooms ''1'' ''100'') = Fin 100"
    "price_term (ex_rooms ''2'' ''150'') = Fin 150"
    using price_term_plain [of "ex_rooms ''1'' ''100''" "''100''"]
      price_term_plain [of "ex_rooms ''2'' ''150''" "''150''"]
    by (simp_all add: example_eval pl dv)
  have d: "data ?h = [ex_rooms ''1'' ''100'', ex_rooms ''2'' ''150'']"
    using b by (simp add: filter_listings_def createHandler_def listing_valid_conj price_step_def
        rooms_step_def review_step_def bedrooms_term_def num_ge_def)
  have r: "round_double 1 = Fin 1" "round_double 3 = Fin 3" "round_double 100 = Fin 100"
    "round_double 250 = Fin 250"
    using round_double_int [of 1] round_double_int [of 3] round_double_int [of 100]
      round_double_int [of 250]
    by simp_all
  have q: "round_double (250 / 3) = Fin (5864062014805333 / 70368744177664)"
    by code_simp
  have tb: "totalBedrooms [ex_rooms ''1'' ''100'', ex_rooms ''2'' ''150''] = Fin 3"
    by (simp add: totalBedrooms_def b r)
  have tp: "totalPrice [ex_rooms ''1'' ''100'', ex_rooms ''2'' ''150''] = Fin 250"
    by (simp add: totalPrice_def p r)
  have m: "no_numeric_prefix (ToString (field (ex_rooms ''x'' ''$100'') ''price''))"
    "no_leading_digit (ToString (field (ex_rooms ''x'' ''$100'') ''bedrooms''))"
    by (simp_all add: example_eval no_numeric_prefix_def no_leading_digit_def is_ws_def
        is_digit_iff)
  note th = computeStats_snapshot [of ?h "ex_rooms ''x'' ''$100''" "ex_rooms ''1'' ''100''"
        "''100''" "''1''"]
  from th have "stats (computeStats ?h) =
     Some \<lparr>count = length (data ?h),
           avgPricePerBedroom =
             (if totalBedrooms (data ?h) = Fin 0 \<or> totalBedrooms (data ?h) = NegZero
                 \<or> totalBedrooms (data ?h) = NaN
              then Fin 0 else num_div (totalPrice (data ?h)) (totalBedrooms (data ?h)))\<rparr>"
    by (rule conjunct1)
  then have s: "stats (computeStats ?h) =
      Some \<lparr>count = 2, avgPricePerBedroom = Fin (5864062014805333 / 70368744177664)\<rparr>"
    unfolding d tb tp by (simp add: num_div_Fin q)
  from th m have z: "price_term (ex_rooms ''x'' ''$100'') = Fin 0"
    "bedrooms_term (ex_rooms ''x'' ''$100'') = Fin 0"
    by blast+
  have f: "field (ex_rooms ''1'' ''100'') ''price'' = Str ''100''"
    "field (ex_rooms ''1'' ''100'') ''bedrooms'' = Str ''1''"
    by (simp_all add: example_eval)
  from th f pl have "price_term (ex_rooms ''1'' ''100'') = Fin (of_int (dec_val ''100''))"
    "bedrooms_term (ex_rooms ''1'' ''100'') = Fin (of_int (dec_val ''1''))"
    by (simp_all only: list.size One_nat_def) simp_all
  then have "price_term (ex_rooms ''1'' ''100'') = Fin 100"
    "bedrooms_term (ex_rooms ''1'' ''100'') = Fin 1"
    by (simp_all only: dv of_int_numeral of_int_1)
  with s z show ?thesis by simp
qed

text \<open>
  The claim as stated fails twice. A price that is not numeric, such as \<open>12abc\<close>, is not
  treated as 0 but as the numeral it starts with: with one bedroom the average is 12, not
  0. And when the bedroom sum is \<open>NaN\<close> (a bedroom numeral of 310 digits reads as
  \<open>Infinity\<close>, its negative as \<open>-Infinity\<close>) the average is 0 and not the quotient, which
  would be \<open>NaN\<close>.
\<close>

theorem computeStats_counterexample:
  "stats (computeStats (createHandler [ex_rooms ''1'' ''12abc'']))
     = Some \<lparr>count = 1, avgPricePerBedroom = Fin 12\<rparr>
   \<and> \<not> is_numeral ''12abc''
   \<and> spec_avg [ex_rooms ''1'' ''12abc''] = Fin 0
   \<and> stats (computeStats
        (createHandler [ex_rooms ex_huge ''100'', ex_rooms (CHR ''-'' # ex_huge) ''100'']))
     = Some \<lparr>count = 2, avgPricePerBedroom = Fin 0\<rparr>
   \<and> is_numeral ex_huge \<and> is_numeral (CHR ''-'' # ex_huge)
   \<and> spec_avg [ex_rooms ex_huge ''100'', ex_rooms (CHR ''-'' # ex_huge) ''100''] = NaN"
proof -
  have r: "round_double 12 = Fin 12" "round_double 1 = Fin 1" "round_double 100 = Fin 100"
    "round_double 200 = Fin 200"
    using round_double_int [of 12] round_double_int [of 1] round_double_int [of 100]
      round_double_int [of 200]
    by simp_all
  have "float_literal ''12abc'' = NumLiteral False 12" "int_literal ''1'' = NumLiteral False 1"
    by (simp_all add: literal_eval)
  then have pf: "parseFloat (Str ''12abc'') = Fin 12" "parseInt (Str ''1'') = Fin 1"
    by (simp_all add: parseFloat_def parseInt_def literal_number_def r)
  have a: "stats (computeStats (createHandler [ex_rooms ''1'' ''12abc'']))
     = Some \<lparr>count = 1, avgPricePerBedroom = Fin 12\<rparr>"
    by (simp add: computeStats_def totalPrice_def totalBedrooms_def price_term_def
        bedrooms_term_def example_eval pf num_or_def r num_div_Fin)
  have b: "\<not> is_numeral ''12abc''"
    by (simp add: is_numeral_def is_digit_in_def digit_table_def)
  have "plain_numeral ''1''" by (simp add: plain_numeral_def is_digit_iff)
  moreover have "dec_val ''1'' = 1" by (simp add: digits_val_def digit_val_def digit_table_def)
  ultimately have "spec_number (Str ''1'') = Fin 1"
    by (simp add: spec_number_def plain_numeral_is_numeral r)
  moreover have "spec_number (Str ''12abc'') = Fin 0"
    using b by (simp add: spec_number_def)
  ultimately have c: "spec_avg [ex_rooms ''1'' ''12abc''] = Fin 0"
    by (simp add: spec_avg_def example_eval r round_double_zero num_div_zero signed_zero_def)
  note hi = ex_huge_numbers(1,2)
  have d: "stats (computeStats
        (createHandler [ex_rooms ex_huge ''100'', ex_rooms (CHR ''-'' # ex_huge) ''100'']))
     = Some \<lparr>count = 2, avgPricePerBedroom = Fin 0\<rparr>"
    by (simp add: computeStats_def totalBedrooms_def bedrooms_term_def example_eval hi
        num_or_def)
  have e: "is_numeral ex_huge" "is_numeral (CHR ''-'' # ex_huge)"
    by (rule plain_numeral_is_numeral [OF ex_huge_facts(1)])+
  have "plain_numeral ''100''"
    by (simp add: plain_numeral_def is_digit_iff)
  moreover have "dec_val ''100'' = 100"
    by (simp add: digits_val_def digit_val_def digit_table_def)
  ultimately have "spec_number (Str ''100'') = Fin 100"
    by (simp add: spec_number_def plain_numeral_is_numeral r)
  note sh = ex_huge_numbers(3,4) this
  have f: "spec_avg [ex_rooms ex_huge ''100'', ex_rooms (CHR ''-'' # ex_huge) ''100''] = NaN"
    by (simp add: spec_avg_def example_eval sh r num_div_NaN)
  from a b c d e f show ?thesis by simp
qed

subsection \<open>filter\<close>

lemma num_ge_Fin: "num_ge (Fin a) (Fin b) = (b \<le> a)"
  by (simp add: num_ge_def)

text \<open>
  C3, as the code has it: with the \<open>rooms\<close> criterion present with integer value \<open>r\<close>, a
  record passes the criterion if and only if \<open>r\<close> is 0 (the criterion is then skipped, as
  if it were omitted) or the number that \<open>parseInt\<close> reads at the start of its \<open>bedrooms\<close>
  field, with 0 when there is none, is at least \<open>r\<close>; \<open>filter\<close> keeps exactly the records
  of the working set that pass this and the other two criteria. A field that does not
  start with a digit counts as 0, and a plain numeral of at most 15 digits as its value.
\<close>

theorem rooms_criterion:
  assumes "rooms c = Some (Fin (of_int r))"
  shows "rooms_step c l True = (r = 0 \<or> num_ge (bedrooms_term l) (Fin (of_int r)))
     \<and> (l \<in> set (data (filter_listings c h)) \<longleftrightarrow>
          l \<in> set (data h) \<and> price_step c l True
          \<and> (r = 0 \<or> num_ge (bedrooms_term l) (Fin (of_int r)))
          \<and> review_step c l True)
     \<and> (no_leading_digit (ToString (field lm ''bedrooms'')) \<longrightarrow> bedrooms_term lm = Fin 0)
     \<and> (field lp ''bedrooms'' = Str s \<and> plain_numeral s \<and> length s \<le> 15 \<longrightarrow>
          bedrooms_term lp = Fin (of_int (dec_val s))
          \<and> (num_ge (bedrooms_term lp) (Fin (of_int r)) \<longleftrightarrow> r \<le> dec_val s))"
proof -
  have a: "rooms_step c l True = (r = 0 \<or> num_ge (bedrooms_term l) (Fin (of_int r)))"
    using assms by (simp add: rooms_step_def bedrooms_term_def)
  then have "l \<in> set (data (filter_listings c h)) \<longleftrightarrow>
          l \<in> set (data h) \<and> price_step c l True
          \<and> (r = 0 \<or> num_ge (bedrooms_term l) (Fin (of_int r)))
          \<and> review_step c l True"
    by (auto simp: filter_listings_def listing_valid_conj)
  moreover have "bedrooms_term lp = Fin (of_int (dec_val s))
          \<and> (num_ge (bedrooms_term lp) (Fin (of_int r)) \<longleftrightarrow> r \<le> dec_val s)"
    if "field lp ''bedrooms'' = Str s" "plain_numeral s" "length s \<le> 15"
    using bedrooms_term_plain [OF that] by (simp add: num_ge_Fin)
  ultimately show ?thesis
    using a bedrooms_term_none [of lm] by blast
qed

theorem rooms_criterion_witness:
  "rooms_step \<lparr>priceRange = None, rooms = Some (Fin 2), reviewScore = None\<rparr>
     (ex_rooms ''3'' ''100'') True
   \<and> \<not> rooms_step \<lparr>priceRange = None, rooms = Some (Fin 2), reviewScore = None\<rparr>
     (ex_rooms ''abc'' ''100'') True"
proof -
  let ?c = "\<lparr>priceRange = None, rooms = Some (Fin 2), reviewScore = None\<rparr>"
  have r: "rooms ?c = Some (Fin (of_int 2))" by simp
  have m: "no_leading_digit (ToString (field (ex_rooms ''abc'' ''100'') ''bedrooms''))"
    by (simp add: example_eval no_leading_digit_def is_ws_def is_digit_iff)
  have p: "field (ex_rooms ''3'' ''100'') ''bedrooms'' = Str ''3'' \<and> plain_numeral ''3''
      \<and> length ''3'' \<le> 15"
    by (simp add: example_eval plain_numeral_def is_digit_iff)
  have d: "dec_val ''3'' = 3" by (simp add: digits_val_def digit_val_def digit_table_def)
  note t1 = rooms_criterion [OF r, of "ex_rooms ''3'' ''100''" _ "ex_rooms ''abc'' ''100''"
      "ex_rooms ''3'' ''100''" "''3''"]
  note t2 = rooms_criterion [OF r, of "ex_rooms ''abc'' ''100''" _ "ex_rooms ''abc'' ''100''"
      "ex_rooms ''3'' ''100''" "''3''"]
  from t1 m p have "num_ge (bedrooms_term (ex_rooms ''3'' ''100'')) (Fin (of_int 2))"
    by (simp add: d num_ge_Fin)
  moreover from t1 m have z: "bedrooms_term (ex_rooms ''abc'' ''100'') = Fin 0" by blast
  ultimately show ?thesis
    using t1 [THEN conjunct1] t2 [THEN conjunct1] by (simp add: z num_ge_Fin)
qed

text \<open>
  The claim as stated fails twice. At \<open>r = 0\<close> a record whose \<open>bedrooms\<close> field is \<open>-1\<close>,
  which is below 0, passes the criterion and stays in the working set. And a malformed
  field is not treated as 0: \<open>3abc\<close> is read as 3 and passes \<open>r = 2\<close>.
\<close>

theorem rooms_counterexample:
  "rooms_step \<lparr>priceRange = None, rooms = Some (Fin (of_int 0)), reviewScore = None\<rparr>
      (ex_rooms ''-1'' ''100'') True
   \<and> data (filter_listings \<lparr>priceRange = None, rooms = Some (Fin (of_int 0)), reviewScore = None\<rparr>
        (createHandler [ex_rooms ''-1'' ''100''])) = [ex_rooms ''-1'' ''100'']
   \<and> spec_integer (Str ''-1'') = Fin (- 1)
   \<and> \<not> num_ge (spec_integer (Str ''-1'')) (Fin (of_int 0))
   \<and> rooms_step \<lparr>priceRange = None, rooms = Some (Fin (of_int 2)), reviewScore = None\<rparr>
      (ex_rooms ''3abc'' ''100'') True
   \<and> \<not> is_integer_numeral ''3abc''
   \<and> spec_integer (Str ''3abc'') = Fin 0
   \<and> \<not> num_ge (spec_integer (Str ''3abc'')) (Fin (of_int 2))"
proof -
  have r: "round_double 3 = Fin 3" "round_double (- 1) = Fin (- 1)"
    using round_double_int [of 3] round_double_int [of "- 1"] by simp_all
  have a: "rooms_step \<lparr>priceRange = None, rooms = Some (Fin (of_int 0)), reviewScore = None\<rparr>
      (ex_rooms ''-1'' ''100'') True"
    by (simp add: rooms_step_def)
  then have b: "data (filter_listings
        \<lparr>priceRange = None, rooms = Some (Fin (of_int 0)), reviewScore = None\<rparr>
        (createHandler [ex_rooms ''-1'' ''100''])) = [ex_rooms ''-1'' ''100'']"
    by (simp add: filter_listings_def createHandler_def listing_valid_conj price_step_def
        review_step_def)
  have "is_integer_numeral ''-1''" "numeral_value ''-1'' = - 1"
    by (simp_all add: is_integer_numeral_def numeral_value_def literal_eval)
  then have c: "spec_integer (Str ''-1'') = Fin (- 1)"
    by (simp add: spec_integer_def r)
  have "int_literal ''3abc'' = NumLiteral False 3"
    by (simp add: literal_eval)
  then have "bedrooms_term (ex_rooms ''3abc'' ''100'') = Fin 3"
    by (simp add: bedrooms_term_def parseInt_def literal_number_def r num_or_Fin example_eval)
  then have d: "rooms_step
      \<lparr>priceRange = None, rooms = Some (Fin (of_int 2)), reviewScore = None\<rparr>
      (ex_rooms ''3abc'' ''100'') True"
    by (simp add: rooms_step_def bedrooms_term_def num_ge_Fin)
  have e: "\<not> is_integer_numeral ''3abc''"
    by (simp add: is_integer_numeral_def is_digit_in_def digit_table_def)
  then have f: "spec_integer (Str ''3abc'') = Fin 0" by (simp add: spec_integer_def)
  from a b c d e f show ?thesis by (simp add: num_ge_Fin)
qed

text \<open>
  C8, as the code has it: with a \<open>priceRange\<close> criterion present, a record whose \<open>price\<close>
  field has no numeral at its start coerces to \<open>NaN\<close>, fails the bounds comparison and is
  not in the filtered working set; any other price is compared by the number that
  \<open>parseFloat\<close> reads at its start. In the aggregate a price with no numeral counts as 0.
  A call of \<open>filter\<close> with a criteria object returns the handler, and \<open>computeStats\<close> stores
  a snapshot that counts every record, whatever the field values are.
\<close>

theorem malformed_price_excluded:
  assumes "priceRange c = Some (lo, hi)"
    and "field l ''price'' = Str s"
    and "no_numeric_prefix s"
  shows "parseFloat (field l ''price'') = NaN
     \<and> \<not> price_step c l True
     \<and> l \<notin> set (data (filter_listings c h))
     \<and> price_step c l' True
         = (num_ge (parseFloat (field l' ''price'')) lo \<and> num_le (parseFloat (field l' ''price'')) hi)
     \<and> price_term l = Fin 0
     \<and> filter_call (Some c) h = Inr (filter_listings c h)
     \<and> (\<exists>a. stats (computeStats h) = Some \<lparr>count = length (data h), avgPricePerBedroom = a\<rparr>)"
proof -
  have nan: "parseFloat (field l ''price'') = NaN"
    using assms(2,3) by (simp add: parseFloat_NaN_iff)
  then have np: "\<not> price_step c l True"
    using assms(1) by (simp add: price_step_def num_ge_def)
  then have "\<not> listing_valid c l"
    by (simp add: listing_valid_conj)
  then have "l \<notin> set (data (filter_listings c h))"
    by (simp add: filter_listings_def)
  moreover have "price_step c l' True
         = (num_ge (parseFloat (field l' ''price'')) lo \<and> num_le (parseFloat (field l' ''price'')) hi)"
    using assms(1) by (simp add: price_step_def Let_def)
  moreover have "price_term l = Fin 0"
    using assms(2,3) by (simp add: price_term_none)
  moreover have "filter_call (Some c) h = Inr (filter_listings c h)"
    by (simp add: filter_call_def)
  moreover have "\<exists>a. stats (computeStats h) = Some \<lparr>count = length (data h), avgPricePerBedroom = a\<rparr>"
    by (simp add: computeStats_def Let_def)
  ultimately show ?thesis using nan np by blast
qed

theorem malformed_price_excluded_witness:
  "data (filter_listings \<lparr>priceRange = Some (Fin 0, Fin 1000), rooms = None, reviewScore = None\<rparr>
      (createHandler [[(''price'', Str ''$100'')], [(''price'', Str ''100'')]]))
   = [[(''price'', Str ''100'')]]"
proof -
  let ?c = "\<lparr>priceRange = Some (Fin 0, Fin 1000), rooms = None, reviewScore = None\<rparr>"
  let ?l = "[(''price'', Str ''$100'')]"
  let ?k = "[(''price'', Str ''100'')]"
  have a: "priceRange ?c = Some (Fin 0, Fin 1000)" by simp
  have b: "field ?l ''price'' = Str ''$100''" by (simp add: field_def)
  have c: "no_numeric_prefix ''$100''"
    by (simp add: no_numeric_prefix_def is_ws_def is_digit_iff)
  have "float_literal ''100'' = NumLiteral False 100" by (simp add: literal_eval)
  moreover have "round_double 100 = Fin 100" using round_double_int [of 100] by simp
  ultimately have p: "parseFloat (field ?k ''price'') = Fin 100"
    by (simp add: parseFloat_def literal_number_def field_def)
  note t = malformed_price_excluded [OF a b c, of "createHandler [?l, ?k]" ?k]
  from t have "price_step ?c ?k True" by (simp add: p num_ge_def num_le_def)
  then have "listing_valid ?c ?k"
    by (simp add: listing_valid_conj rooms_step_def review_step_def)
  moreover from t have "?l \<notin> set (data (filter_listings ?c (createHandler [?l, ?k])))"
    by blast
  ultimately show ?thesis
    by (auto simp add: filter_listings_def createHandler_def split: if_splits)
qed

text \<open>
  The claim as stated fails for a malformed price that starts with a numeral: \<open>12abc\<close> is
  not a numeral, yet it coerces to 12 and not to \<open>NaN\<close>, lies within the bounds 0 and 100,
  and stays in the filtered working set.
\<close>

theorem malformed_price_counterexample:
  "\<not> is_numeral ''12abc''
   \<and> parseFloat (field [(''price'', Str ''12abc'')] ''price'') = Fin 12
   \<and> data (filter_listings \<lparr>priceRange = Some (Fin 0, Fin 100), rooms = None, reviewScore = None\<rparr>
        (createHandler [[(''price'', Str ''12abc'')]]))
       = [[(''price'', Str ''12abc'')]]"
proof -
  have a: "\<not> is_numeral ''12abc''"
    by (simp add: is_numeral_def is_digit_in_def digit_table_def)
  have "float_literal ''12abc'' = NumLiteral False 12" by (simp add: literal_eval)
  moreover have "round_double 12 = Fin 12" using round_double_int [of 12] by simp
  ultimately have p: "parseFloat (field [(''price'', Str ''12abc'')] ''price'') = Fin 12"
    by (simp add: parseFloat_def literal_number_def field_def)
  then show ?thesis
    using a by (simp add: filter_listings_def createHandler_def listing_valid_conj price_step_def
        rooms_step_def review_step_def num_ge_def num_le_def)
qed

subsection \<open>computeHostRanking\<close>

lemma keys_obj_set:
  "map fst (obj_set k v acc) = (if k \<in> set (map fst acc) then map fst acc else map fst acc @ [k])"
  by (induction acc) auto

lemma map_of_obj_set: "map_of (obj_set k v acc) = (map_of acc)(k \<mapsto> v)"
  by (induction acc) auto

lemma keys_count_host:
  "map fst (count_host acc l) =
     (if host_key l \<in> set (map fst acc) \<or> host_key l = ''__proto__'' then map fst acc
      else map fst acc @ [host_key l])"
  by (auto simp: count_host_def Let_def keys_obj_set map_of_eq_None_iff)

lemma distinct_count_host: "distinct (map fst acc) \<Longrightarrow> distinct (map fst (count_host acc l))"
  by (simp add: keys_count_host)

lemma distinct_foldl_count_host:
  "distinct (map fst acc) \<Longrightarrow> distinct (map fst (foldl count_host acc dat))"
  by (induction dat arbitrary: acc) (simp_all add: distinct_count_host)

lemma distinct_ranking: "distinct (map fst (ranking dat))"
  by (simp add: ranking_def distinct_foldl_count_host)

lemma not_inherited_proto: "\<not> inherited u \<Longrightarrow> u \<noteq> ''__proto__''"
  by (auto simp: inherited_def proto_members_def)

text \<open>Under a key that is not inherited the stored value is the number of records met.\<close>

lemma count_host_at_key:
  assumes "\<not> inherited u"
    and "map_of acc u = (if m = 0 then None else Some (Num m))"
  shows "map_of (count_host acc l) u =
     (if m + (if host_key l = u then 1 else 0) = 0 then None
      else Some (Num (m + (if host_key l = u then 1 else 0))))"
proof (cases "host_key l = u")
  case True
  with assms not_inherited_proto [OF assms(1)] show ?thesis
    by (simp add: count_host_def Let_def map_of_obj_set)
next
  case False
  with assms(2) show ?thesis
    by (simp add: count_host_def Let_def map_of_obj_set)
qed

lemma foldl_count_host_at_key:
  assumes "\<not> inherited u"
    and "map_of acc u = (if m = 0 then None else Some (Num m))"
  shows "map_of (foldl count_host acc dat) u =
     (if m + count_list (map host_key dat) u = 0 then None
      else Some (Num (m + count_list (map host_key dat) u)))"
  using assms(2)
proof (induction dat arbitrary: acc m)
  case Nil
  then show ?case by simp
next
  case (Cons l ls)
  from count_host_at_key [OF assms(1) Cons.prems, of l]
  have "map_of (foldl count_host (count_host acc l) ls) u =
     (if m + (if host_key l = u then 1 else 0) + count_list (map host_key ls) u = 0 then None
      else Some (Num (m + (if host_key l = u then 1 else 0) + count_list (map host_key ls) u)))"
    by (rule Cons.IH)
  then show ?case by (simp add: add.assoc)
qed

lemma ranking_at_key:
  assumes "\<not> inherited u"
  shows "map_of (ranking dat) u =
     (if count_list (map host_key dat) u = 0 then None
      else Some (Num (count_list (map host_key dat) u)))"
  using foldl_count_host_at_key [OF assms, of "[]" 0 dat] by (simp add: ranking_def)

lemma count_list_host_key:
  "count_list (map host_key dat) k = length (filter (\<lambda>x. host_key x = k) dat)"
  by (induction dat) simp_all

subsubsection \<open>The sort only rearranges\<close>

lemma mset_insort_cmp: "mset (insort_cmp c x ys) = add_mset x (mset ys)"
  by (induction ys) simp_all

lemma mset_foldr_insort_cmp: "mset (foldr (insort_cmp c) xs []) = mset xs"
  by (induction xs) (simp_all add: mset_insort_cmp)

lemma mset_sort_cmp: "mset (sort_cmp engine comparefn xs) = mset xs"
  by (simp add: sort_cmp_def mset_foldr_insort_cmp)

lemma mset_Object_entries: "mset (Object_entries obj) = mset obj"
  by (simp add: Object_entries_def multiset_partition [symmetric])

lemma filter_rearranged:
  assumes "mset ys = mset xs" and "filter P xs = [e]"
  shows "filter P ys = [e]"
proof -
  have "mset (filter P ys) = mset (filter P xs)"
    using assms(1) by simp
  then have "mset (filter P ys) = {#e#}"
    by (simp only: assms(2) mset.simps)
  then show ?thesis
    by (simp only: mset_single_iff)
qed

lemma filter_key_single:
  "distinct (map fst obj) \<Longrightarrow> map_of obj u = Some v \<Longrightarrow> filter (\<lambda>p. fst p = u) obj = [(u, v)]"
proof (induction obj)
  case Nil
  then show ?case by simp
next
  case (Cons p ps)
  show ?case
  proof (cases "fst p = u")
    case True
    with Cons.prems have "p = (u, v)" by (cases p) simp
    moreover have "filter (\<lambda>p. fst p = u) ps = []"
      unfolding filter_empty_conv
    proof (intro ballI notI)
      fix q
      assume "q \<in> set ps" and "fst q = u"
      then have "u \<in> fst ` set ps" by (rule rev_image_eqI [OF _ sym])
      with Cons.prems(1) True show False by simp
    qed
    ultimately show ?thesis by simp
  next
    case False
    with Cons show ?thesis by simp
  qed
qed

lemma ranking_single_entry:
  assumes "\<not> inherited u" and "u \<in> set (map host_key dat)"
  shows "filter (\<lambda>e. host e = u) (host_ranking_of engine dat)
       = [\<lparr>host = u, count' = Num (length (filter (\<lambda>x. host_key x = u) dat))\<rparr>]"
proof -
  let ?mk = "\<lambda>(h, n). \<lparr>host = h, count' = n\<rparr>"
  let ?v = "Num (count_list (map host_key dat) u)"
  from assms(2) have "count_list (map host_key dat) u \<noteq> 0"
    by (simp only: count_list_0_iff) simp
  then have "map_of (ranking dat) u = Some ?v"
    using ranking_at_key [OF assms(1), of dat] by simp
  then have "filter (\<lambda>p. fst p = u) (ranking dat) = [(u, ?v)]"
    by (rule filter_key_single [OF distinct_ranking])
  then have "filter (\<lambda>p. fst p = u) (Object_entries (ranking dat)) = [(u, ?v)]"
    by (rule filter_rearranged [OF mset_Object_entries])
  then have "filter (\<lambda>e. host e = u) (map ?mk (Object_entries (ranking dat)))
       = [\<lparr>host = u, count' = ?v\<rparr>]"
    by (simp add: filter_map comp_def case_prod_beta)
  then have "filter (\<lambda>e. host e = u) (host_ranking_of engine dat) = [\<lparr>host = u, count' = ?v\<rparr>]"
    unfolding host_ranking_of_def by (rule filter_rearranged [OF mset_sort_cmp])
  then show ?thesis by (simp add: count_list_host_key)
qed

lemmas ranking_eval = host_ranking_of_def sort_cmp_def SortCompare_def consistent_def
  by_count_desc_def ranking_def count_host_def host_key_def inherited_def proto_members_def
  Object_entries_def is_array_index_def is_digit_in_def digit_val_def digits_val_def
  digit_table_def field_def ex_host_def

text \<open>
  C9: when a record of the working set has no \<open>host_id\<close> field, its host key is the string
  \<open>undefined\<close>, and the ranking has exactly one entry with that key; its count is the number
  of records with that host key, which covers every record without a \<open>host_id\<close> field.
\<close>

theorem missing_host_id_grouped:
  assumes "l \<in> set dat" and "map_of l ''host_id'' = None"
  shows "host_key l = ''undefined''
     \<and> filter (\<lambda>e. host e = ''undefined'') (host_ranking_of engine dat)
         = [\<lparr>host = ''undefined'',
             count' = Num (length (filter (\<lambda>x. host_key x = ''undefined'') dat))\<rparr>]
     \<and> length (filter (\<lambda>x. map_of x ''host_id'' = None) dat)
         \<le> length (filter (\<lambda>x. host_key x = ''undefined'') dat)"
proof -
  have k: "host_key x = ''undefined''" if "map_of x ''host_id'' = None" for x
    using that by (simp add: host_key_def field_def proto_members_def)
  have "filter (\<lambda>x. map_of x ''host_id'' = None) dat
      = filter (\<lambda>x. map_of x ''host_id'' = None) (filter (\<lambda>x. host_key x = ''undefined'') dat)"
    unfolding filter_filter by (intro filter_cong) (auto simp: k)
  then have "length (filter (\<lambda>x. map_of x ''host_id'' = None) dat)
         \<le> length (filter (\<lambda>x. host_key x = ''undefined'') dat)"
    by (metis length_filter_le)
  moreover have "''undefined'' \<in> set (map host_key dat)"
    using assms k [of l] by force
  moreover have "\<not> inherited ''undefined''"
    by (simp add: inherited_def proto_members_def)
  ultimately show ?thesis
    using k [OF assms(2)] ranking_single_entry [of "''undefined''" dat engine] by simp
qed

theorem missing_host_id_grouped_witness:
  "host_ranking_of id [[], ex_host ''x'', []]
     = [\<lparr>host = ''undefined'', count' = Num 2\<rparr>, \<lparr>host = ''x'', count' = Num 1\<rparr>]"
proof -
  have a: "[] \<in> set [[], ex_host ''x'', []]" by simp
  have b: "map_of ([] :: listing) ''host_id'' = None" by simp
  show ?thesis
    using missing_host_id_grouped [OF a b, of id]
    by (simp add: ranking_eval)
qed

subsubsection \<open>Host keys that are not inherited\<close>

lemma set_first_seen: "set (first_seen ks) = set ks"
  by (induction ks) auto

lemma distinct_first_seen: "distinct (first_seen ks)"
  by (induction ks) auto

lemma first_seen_distinct: "distinct ks \<Longrightarrow> first_seen ks = ks"
  by (induction ks) (auto simp: filter_id_conv)

lemma count_list_distinct: "distinct xs \<Longrightarrow> x \<in> set xs \<Longrightarrow> count_list xs x = 1"
  by (induction xs) auto

lemma set_key_order: "set (key_order ks) = set ks"
  by (auto simp: key_order_def)

lemma distinct_key_order: "distinct ks \<Longrightarrow> distinct (key_order ks)"
  by (auto simp: key_order_def)

lemma length_key_order: "length (key_order ks) = length ks"
  by (simp add: key_order_def sum_length_filter_compl)

lemma key_order_no_index: "\<forall>k\<in>set ks. \<not> is_array_index k \<Longrightarrow> key_order ks = ks"
  by (simp add: key_order_def filter_empty_conv)

lemma keys_foldl_count_host:
  assumes "\<forall>l\<in>set dat. host_key l \<noteq> ''__proto__''"
  shows "map fst (foldl count_host acc dat) =
     map fst acc @ filter (\<lambda>h. h \<notin> set (map fst acc)) (first_seen (map host_key dat))"
  using assms
proof (induction dat arbitrary: acc)
  case Nil
  show ?case by simp
next
  case (Cons l ls)
  let ?k = "host_key l" and ?fs = "first_seen (map host_key ls)"
  from Cons.prems have np: "?k \<noteq> ''__proto__''" and rest: "\<forall>l\<in>set ls. host_key l \<noteq> ''__proto__''"
    by simp_all
  note ih = Cons.IH [OF rest, of "count_host acc l"]
  show ?case
  proof (cases "?k \<in> set (map fst acc)")
    case True
    then have "filter (\<lambda>h. h \<notin> set (map fst acc)) (filter (\<lambda>x. x \<noteq> ?k) ?fs)
        = filter (\<lambda>h. h \<notin> set (map fst acc)) ?fs"
      unfolding filter_filter by (intro filter_cong) auto
    moreover have "map fst (count_host acc l) = map fst acc"
      using True by (simp add: keys_count_host)
    ultimately show ?thesis
      using True ih by simp
  next
    case False
    have "filter (\<lambda>h. h \<notin> set (map fst acc @ [?k])) ?fs
        = filter (\<lambda>h. h \<notin> set (map fst acc)) (filter (\<lambda>x. x \<noteq> ?k) ?fs)"
      unfolding filter_filter by (intro filter_cong) auto
    moreover have "map fst (count_host acc l) = map fst acc @ [?k]"
      using False np by (simp add: keys_count_host)
    ultimately show ?thesis
      using False ih by simp
  qed
qed

lemma alist_by_keys:
  "distinct (map fst obj) \<Longrightarrow> obj = map (\<lambda>k. (k, the (map_of obj k))) (map fst obj)"
proof (induction obj)
  case Nil
  show ?case by simp
next
  case (Cons p ps)
  obtain k v where p: "p = (k, v)" by (cases p)
  from Cons.prems p have k: "k \<notin> set (map fst ps)" and d: "distinct (map fst ps)"
    by simp_all
  have "map (\<lambda>x. (x, the (map_of (p # ps) x))) (map fst ps)
      = map (\<lambda>x. (x, the (map_of ps x))) (map fst ps)"
    using k p by (intro map_cong) auto
  also have "\<dots> = ps" using Cons.IH [OF d] by simp
  finally have "map (\<lambda>x. (x, the (map_of (p # ps) x))) (map fst ps) = ps" .
  then show ?case by (simp add: p)
qed

lemma ranking_plain:
  assumes "\<forall>l\<in>set dat. \<not> inherited (host_key l)"
  shows "ranking dat =
     map (\<lambda>k. (k, Num (count_list (map host_key dat) k))) (first_seen (map host_key dat))"
proof -
  let ?ks = "map host_key dat"
  from assms have "\<forall>l\<in>set dat. host_key l \<noteq> ''__proto__''"
    using not_inherited_proto by blast
  from keys_foldl_count_host [OF this, of "[]"]
  have keys: "map fst (ranking dat) = first_seen ?ks" by (simp add: ranking_def)
  have "the (map_of (ranking dat) k) = Num (count_list ?ks k)" if "k \<in> set (first_seen ?ks)" for k
  proof -
    from that have m: "k \<in> set ?ks" by (simp only: set_first_seen)
    then have "\<not> inherited k" using assms by auto
    moreover from m have "count_list ?ks k \<noteq> 0" by (simp only: count_list_0_iff) simp
    ultimately show ?thesis using ranking_at_key [of k dat] by simp
  qed
  then have "map (\<lambda>k. (k, the (map_of (ranking dat) k))) (first_seen ?ks)
      = map (\<lambda>k. (k, Num (count_list ?ks k))) (first_seen ?ks)"
    by (intro map_cong) simp_all
  with alist_by_keys [OF distinct_ranking, of dat] show ?thesis
    by (simp only: keys)
qed

lemma insort_key_map:
  "insort_key f (g x) (map g xs) = map g (insort_key (\<lambda>y. f (g y)) x xs)"
  by (induction xs) simp_all

lemma sort_key_map: "sort_key f (map g xs) = map g (sort_key (\<lambda>y. f (g y)) xs)"
  by (induction xs) (simp_all add: insort_key_map)

lemma Object_entries_map:
  "Object_entries (map (\<lambda>h. (h, c h)) ks) = map (\<lambda>h. (h, c h)) (key_order ks)"
  by (simp add: Object_entries_def key_order_def filter_map comp_def sort_key_map)

text \<open>When every count is a number the comparator is consistent and the sort is stable.\<close>

lemma compare_numbers:
  assumes "count' a = Num m" and "count' b = Num n"
  shows "SortCompare by_count_desc a b = int n - int m"
  using assms by (simp add: SortCompare_def by_count_desc_def)

lemma compare_numbers_set:
  assumes "\<forall>e\<in>set xs. \<exists>n. count' e = Num n" and "a \<in> set xs" and "b \<in> set xs"
  shows "SortCompare by_count_desc a b
       = int (count_value (count' b)) - int (count_value (count' a))"
proof -
  from assms obtain m n where "count' a = Num m" "count' b = Num n" by blast
  then show ?thesis by (simp add: compare_numbers)
qed

lemma consistent_numbers:
  assumes "\<forall>e\<in>set xs. \<exists>n. count' e = Num n"
  shows "consistent (SortCompare by_count_desc) xs"
  unfolding consistent_def
  by (intro ballI conjI impI) (simp_all add: compare_numbers_set [OF assms])

lemma insort_cmp_key:
  assumes "\<forall>y\<in>set ys. (c x y \<le> 0) = (f x \<le> f y)"
  shows "insort_cmp c x ys = insort_key f x ys"
  using assms by (induction ys) simp_all

lemma sort_cmp_numbers:
  fixes xs :: "ranking_entry list"
  assumes "\<forall>e\<in>set xs. \<exists>n. count' e = Num n"
  shows "sort_cmp engine by_count_desc xs = sort_key (\<lambda>e. - int (count_value (count' e))) xs"
proof -
  let ?c = "SortCompare by_count_desc" and ?f = "\<lambda>e. - int (count_value (count' e))"
  have "foldr (insort_cmp ?c) ys [] = sort_key ?f ys" if "set ys \<subseteq> set xs" for ys
    using that
  proof (induction ys)
    case Nil
    show ?case by simp
  next
    case (Cons y ys)
    then have ih: "foldr (insort_cmp ?c) ys [] = sort_key ?f ys" and y: "y \<in> set xs"
      and sub: "set ys \<subseteq> set xs"
      by simp_all
    have "\<forall>z\<in>set (sort_key ?f ys). (?c y z \<le> 0) = (?f y \<le> ?f z)"
      using sub y by (auto simp: compare_numbers_set [OF assms])
    then have "insort_cmp ?c y (sort_key ?f ys) = insort_key ?f y (sort_key ?f ys)"
      by (rule insort_cmp_key)
    then show ?case by (simp add: ih)
  qed
  then have "foldr (insort_cmp ?c) xs [] = sort_key ?f xs" by simp
  then show ?thesis
    by (simp add: sort_cmp_def consistent_numbers [OF assms])
qed

lemma host_ranking_plain:
  assumes "\<forall>l\<in>set dat. \<not> inherited (host_key l)"
  shows "host_ranking_of engine dat =
     sort_key (\<lambda>e. - int (count_value (count' e)))
       (map (\<lambda>h. \<lparr>host = h, count' = Num (count_list (map host_key dat) h)\<rparr>)
          (key_order (first_seen (map host_key dat))))"
proof -
  let ?xs = "map (\<lambda>h. \<lparr>host = h, count' = Num (count_list (map host_key dat) h)\<rparr>)
          (key_order (first_seen (map host_key dat)))"
  have e: "map (\<lambda>(h, n). \<lparr>host = h, count' = n\<rparr>) (Object_entries (ranking dat)) = ?xs"
    by (simp add: ranking_plain [OF assms] Object_entries_map comp_def)
  have "\<forall>e\<in>set ?xs. \<exists>n. count' e = Num n" by auto
  then show ?thesis
    unfolding host_ranking_of_def e by (rule sort_cmp_numbers)
qed

lemma ranking_ties:
  assumes "\<forall>l\<in>set dat. \<not> inherited (host_key l)"
  shows "map host (filter (\<lambda>e. count' e = Num n) (host_ranking_of engine dat))
   = filter (\<lambda>k. count_list (map host_key dat) k = n)
       (key_order (first_seen (map host_key dat)))"
proof -
  let ?f = "\<lambda>e :: ranking_entry. - int (count_value (count' e))"
  let ?xs = "map (\<lambda>h. \<lparr>host = h, count' = Num (count_list (map host_key dat) h)\<rparr>)
          (key_order (first_seen (map host_key dat)))"
  have num: "\<forall>e\<in>set ?xs. \<exists>m. count' e = Num m" by auto
  have eq: "(count' e = Num n) = (?f e = - int n)" if "e \<in> set ys" "set ys = set ?xs" for e ys
  proof -
    from that num obtain m where "count' e = Num m" by blast
    then show ?thesis by simp
  qed
  have "filter (\<lambda>e. count' e = Num n) (sort_key ?f ?xs)
      = filter (\<lambda>e. ?f e = - int n) (sort_key ?f ?xs)"
    by (intro filter_cong refl eq [of _ "sort_key ?f ?xs"]) simp_all
  also have "\<dots> = filter (\<lambda>e. ?f e = - int n) ?xs"
    by (rule sort_key_stable)
  also have "\<dots> = filter (\<lambda>e. count' e = Num n) ?xs"
    by (intro filter_cong refl eq [of _ ?xs, symmetric]) simp_all
  finally show ?thesis
    by (simp add: host_ranking_plain [OF assms] filter_map comp_def)
qed

lemma ranking_counts_sum:
  assumes "\<forall>l\<in>set dat. \<not> inherited (host_key l)"
  shows "sum_list (map (\<lambda>e. count_value (count' e)) (host_ranking_of engine dat)) = length dat"
proof -
  let ?ks = "map host_key dat"
  let ?f = "\<lambda>e :: ranking_entry. - int (count_value (count' e))"
  let ?g = "\<lambda>e :: ranking_entry. count_value (count' e)"
  let ?xs = "map (\<lambda>h. \<lparr>host = h, count' = Num (count_list ?ks h)\<rparr>) (key_order (first_seen ?ks))"
  have "sum_list (map ?g (sort_key ?f ?xs)) = sum_mset (mset (map ?g (sort_key ?f ?xs)))"
    by (simp only: sum_mset_sum_list)
  also have "\<dots> = sum_mset (mset (map ?g ?xs))"
    by (simp only: mset_map mset_sort)
  also have "\<dots> = sum_list (map ?g ?xs)"
    by (simp only: sum_mset_sum_list)
  also have "\<dots> = sum_list (map (count_list ?ks) (key_order (first_seen ?ks)))"
    by (simp add: comp_def)
  also have "\<dots> = sum (count_list ?ks) (set (key_order (first_seen ?ks)))"
    by (rule sum_list_distinct_conv_sum_set) (simp add: distinct_key_order distinct_first_seen)
  also have "\<dots> = sum (count_list ?ks) (set ?ks)"
    by (simp only: set_key_order set_first_seen)
  also have "\<dots> = length ?ks"
    by (rule sum_count_set) simp_all
  finally show ?thesis by (simp add: host_ranking_plain [OF assms])
qed

lemma ranking_sorted:
  assumes "\<forall>l\<in>set dat. \<not> inherited (host_key l)"
  shows "sorted_wrt (\<lambda>a b. count_value (count' a) \<ge> count_value (count' b))
     (host_ranking_of engine dat)"
proof -
  have "sorted (map (\<lambda>e. - int (count_value (count' e))) (host_ranking_of engine dat))"
    unfolding host_ranking_plain [OF assms] by (rule sorted_sort_key)
  then show ?thesis by (simp add: sorted_map)
qed

lemma ranking_distinct_hosts:
  assumes "\<forall>l\<in>set dat. \<not> inherited (host_key l)" and "distinct (map host_key dat)"
  shows "map count' (host_ranking_of engine dat) = replicate (length dat) (Num 1)"
proof -
  let ?ks = "map host_key dat"
  have "count' e = Num 1" if "e \<in> set (host_ranking_of engine dat)" for e
  proof -
    from that have "e \<in> (\<lambda>h. \<lparr>host = h, count' = Num (count_list ?ks h)\<rparr>) ` set ?ks"
      unfolding host_ranking_plain [OF assms(1)] set_sort set_map set_key_order set_first_seen .
    then obtain k where "k \<in> set ?ks" and "e = \<lparr>host = k, count' = Num (count_list ?ks k)\<rparr>"
      by blast
    with assms(2) show ?thesis
      by (simp add: count_list_distinct del: set_map)
  qed
  then have "map count' (host_ranking_of engine dat)
      = replicate (length (host_ranking_of engine dat)) (Num 1)"
    by (simp add: map_replicate_const [symmetric] cong: map_cong)
  moreover have "length (host_ranking_of engine dat) = length dat"
    using assms(2) by (simp add: host_ranking_plain [OF assms(1)] length_key_order first_seen_distinct)
  ultimately show ?thesis by simp
qed

text \<open>
  C4, as the code has it: when no host key is the name of a member of \<open>Object.prototype\<close>,
  the entries that have the same count appear in the order in which \<open>Object.entries\<close>
  enumerates the host keys, that is, the keys that are array indices (such as \<open>3\<close> or \<open>5\<close>)
  first, in ascending numeric order, and then the other keys in the order in which they
  are first met in the working set. When no host key is an array index this is the
  first-met order. The ranking does not depend on the sort of the engine: it is a
  function of the working set.
\<close>

theorem ties_in_key_order:
  assumes "\<forall>l\<in>set (data h). \<not> inherited (host_key l)"
  shows "map host (filter (\<lambda>e. count' e = Num n) (host_ranking_of engine (data h)))
     = filter (\<lambda>k. count_list (map host_key (data h)) k = n)
         (key_order (first_seen (map host_key (data h))))
   \<and> ((\<forall>l\<in>set (data h). \<not> is_array_index (host_key l)) \<longrightarrow>
        map host (filter (\<lambda>e. count' e = Num n) (host_ranking_of engine (data h)))
          = filter (\<lambda>k. count_list (map host_key (data h)) k = n)
              (first_seen (map host_key (data h))))
   \<and> host_ranking_of engine (data h) = host_ranking_of engine' (data h)
   \<and> hostRanking (computeHostRanking engine h) = Some (host_ranking_of engine (data h))"
proof -
  have "key_order (first_seen (map host_key (data h))) = first_seen (map host_key (data h))"
    if "\<forall>l\<in>set (data h). \<not> is_array_index (host_key l)"
    by (rule key_order_no_index) (use that in \<open>auto simp: set_first_seen\<close>)
  moreover have "host_ranking_of engine (data h) = host_ranking_of engine' (data h)"
    by (simp only: host_ranking_plain [OF assms])
  ultimately show ?thesis
    by (simp add: ranking_ties [OF assms] computeHostRanking_def)
qed

theorem ties_in_key_order_witness:
  "map host (filter (\<lambda>e. count' e = Num 1)
      (host_ranking_of id [ex_host ''b'', ex_host ''a'', ex_host ''b'', ex_host ''7'', ex_host ''10'']))
   = [''7'', ''10'', ''a'']
   \<and> map host (filter (\<lambda>e. count' e = Num 1) (host_ranking_of id [ex_host ''b'', ex_host ''a'']))
   = [''b'', ''a'']"
proof -
  let ?h = "createHandler [ex_host ''b'', ex_host ''a'', ex_host ''b'', ex_host ''7'', ex_host ''10'']"
  let ?g = "createHandler [ex_host ''b'', ex_host ''a'']"
  have k: "host_key (ex_host i) = i" for i
    by (simp add: host_key_def ex_host_def field_def)
  have ni: "\<not> inherited ''a''" "\<not> inherited ''b''" "\<not> inherited ''7''" "\<not> inherited ''10''"
    by (simp_all add: inherited_def proto_members_def)
  have na: "\<not> is_array_index ''a''" "\<not> is_array_index ''b''"
    "is_array_index ''7''" "is_array_index ''10''"
    by (simp_all add: is_array_index_def is_digit_in_def digit_table_def digits_val_def
        digit_val_def)
  have dv: "dec_val ''7'' = 7" "dec_val ''10'' = 10"
    by (simp_all add: digits_val_def digit_val_def digit_table_def)
  have h: "\<forall>l\<in>set (data ?h). \<not> inherited (host_key l)"
    and g: "\<forall>l\<in>set (data ?g). \<not> inherited (host_key l)"
    and ga: "\<forall>l\<in>set (data ?g). \<not> is_array_index (host_key l)"
    by (simp_all add: createHandler_def k ni na)
  show ?thesis
    using ties_in_key_order [OF h, of 1 id] ties_in_key_order [OF g, of 1 id] ga
    by (simp add: createHandler_def k key_order_def na dv)
qed

text \<open>
  The claim as stated fails when host ids are numerals: with the hosts \<open>5\<close> and \<open>3\<close> met in
  this order, one listing each, the ranking lists \<open>3\<close> before \<open>5\<close>.
\<close>

theorem ties_first_seen_counterexample:
  "host_ranking_of id [ex_host ''5'', ex_host ''3'']
     = [\<lparr>host = ''3'', count' = Num 1\<rparr>, \<lparr>host = ''5'', count' = Num 1\<rparr>]
   \<and> map host_key [ex_host ''5'', ex_host ''3''] = [''5'', ''3'']"
  by (simp add: ranking_eval)

text \<open>
  What holds of the ranking when no host key is the name of a member of
  \<open>Object.prototype\<close>: the counts are numbers that add up to the size of the working set,
  the entries are in descending order of count, and when the host keys are pairwise
  distinct there is one entry per record, each with count 1.
\<close>

lemma host_ranking_counts:
  assumes "\<forall>l\<in>set (data h). \<not> inherited (host_key l)"
  shows "hostRanking (computeHostRanking engine h) = Some (host_ranking_of engine (data h))
   \<and> sum_list (map (\<lambda>e. count_value (count' e)) (host_ranking_of engine (data h)))
       = length (data h)
   \<and> sorted_wrt (\<lambda>a b. count_value (count' a) \<ge> count_value (count' b))
       (host_ranking_of engine (data h))
   \<and> (distinct (map host_key (data h)) \<longrightarrow>
        map count' (host_ranking_of engine (data h)) = replicate (length (data h)) (Num 1))"
  using ranking_counts_sum [OF assms] ranking_sorted [OF assms] ranking_distinct_hosts [OF assms]
  by (simp add: computeHostRanking_def)

text \<open>
  C6 fails on the code for a host id that names a member of \<open>Object.prototype\<close>. Of two
  records with the host ids \<open>__proto__\<close> and \<open>a\<close>, the ranking has the single entry \<open>a\<close> with
  count 1, so the counts add up to 1 and not to 2. Of two records with the distinct host
  ids \<open>constructor\<close> and \<open>a\<close>, the entry \<open>constructor\<close> has no count 1 but the text of
  the inherited function followed by \<open>1\<close>.
\<close>

theorem host_ranking_inherited_key:
  "host_ranking_of id [ex_host ''__proto__'', ex_host ''a''] = [\<lparr>host = ''a'', count' = Num 1\<rparr>]
   \<and> length [ex_host ''__proto__'', ex_host ''a''] = 2
   \<and> host_ranking_of id [ex_host ''constructor'', ex_host ''a'']
       = [\<lparr>host = ''constructor'', count' = Appended ''constructor'' 1\<rparr>,
          \<lparr>host = ''a'', count' = Num 1\<rparr>]
   \<and> ToString (field [] ''constructor'') @ ''1'' = ''function Object() { [native code] }1''"
proof -
  have k: "host_key (ex_host i) = i" for i
    by (simp add: host_key_def ex_host_def field_def)
  have r1: "ranking [ex_host ''__proto__'', ex_host ''a''] = [(''a'', Num 1)]"
    by (simp add: ranking_def count_host_def k Let_def inherited_def
        proto_members_def)
  have r2: "ranking [ex_host ''constructor'', ex_host ''a'']
      = [(''constructor'', Appended ''constructor'' 1), (''a'', Num 1)]"
    by (simp add: ranking_def count_host_def k Let_def inherited_def
        proto_members_def)
  have na: "\<not> is_array_index ''a''" "\<not> is_array_index ''constructor''"
    by (simp_all add: is_array_index_def is_digit_in_def digit_table_def)
  have f: "ToString (field [] ''constructor'') = ''function Object() { [native code] }''"
    by (simp add: field_def proto_members_def)
  show ?thesis
    unfolding host_ranking_of_def r1 r2
    by (simp add: Object_entries_def na sort_cmp_def SortCompare_def consistent_def
        by_count_desc_def f)
qed

subsection \<open>convertToCSV\<close>

lemma set_Object_entries: "set (Object_entries obj) = set obj"
  by (auto simp: Object_entries_def)

lemma length_double_quotes: "length s \<le> length (double_quotes s)"
  by (induction s) (simp_all add: double_quotes_def)

lemma quoted_neq: "CHR 0x22 # double_quotes s @ [CHR 0x22] \<noteq> s"
proof
  assume "CHR 0x22 # double_quotes s @ [CHR 0x22] = s"
  then have "length (CHR 0x22 # double_quotes s @ [CHR 0x22]) = length s" by simp
  then show False using length_double_quotes [of s] by simp
qed

text \<open>
  What holds of the encoding: the encoding of an empty sequence is the empty text;
  otherwise it is the header line, made of the keys of the first record joined by commas,
  followed by one line for each record, the lines separated by newlines. A string field
  is wrapped in quote characters, with every quote character inside it doubled, if and
  only if it contains a comma, a quote character or a newline, and is written as it is
  otherwise; a null field is written as the empty string, and so is a missing field whose
  name is not the name of a member of \<open>Object.prototype\<close>.
\<close>

lemma convertToCSV_structure:
  "convertToCSV [] = []
   \<and> convertToCSV (first # rest) =
       join [CHR 0x0A]
         (join '','' (Object_keys first)
          # map (\<lambda>row. join '','' (map (\<lambda>k. quoteField (field row k)) (Object_keys first)))
              (first # rest))
   \<and> set (Object_keys first) = fst ` set first
   \<and> quoteField (Str s) =
       (if CHR '','' \<in> set s \<or> CHR 0x22 \<in> set s \<or> CHR 0x0A \<in> set s
        then CHR 0x22 # double_quotes s @ [CHR 0x22] else s)
   \<and> (quoteField (Str s) = CHR 0x22 # double_quotes s @ [CHR 0x22]
        \<longleftrightarrow> CHR '','' \<in> set s \<or> CHR 0x22 \<in> set s \<or> CHR 0x0A \<in> set s)
   \<and> double_quotes [] = []
   \<and> double_quotes (ch # s) =
       (if ch = CHR 0x22 then [CHR 0x22, CHR 0x22] else [ch]) @ double_quotes s
   \<and> quoteField Null = [] \<and> quoteField Undefined = []
   \<and> (map_of row k = None \<and> \<not> inherited k \<longrightarrow> quoteField (field row k) = [])"
proof -
  have "convertToCSV [] = []" by (simp add: convertToCSV_def)
  moreover have "convertToCSV (first # rest) =
       join [CHR 0x0A]
         (join '','' (Object_keys first)
          # map (\<lambda>row. join '','' (map (\<lambda>k. quoteField (field row k)) (Object_keys first)))
              (first # rest))"
    by (simp add: convertToCSV_def Let_def)
  moreover have "set (Object_keys first) = fst ` set first"
    by (simp add: Object_keys_def set_Object_entries)
  moreover have q: "quoteField (Str s) =
       (if CHR '','' \<in> set s \<or> CHR 0x22 \<in> set s \<or> CHR 0x0A \<in> set s
        then CHR 0x22 # double_quotes s @ [CHR 0x22] else s)"
    by (simp add: quoteField_def needs_quote_def)
  moreover have "quoteField (Str s) = CHR 0x22 # double_quotes s @ [CHR 0x22]
        \<longleftrightarrow> CHR '','' \<in> set s \<or> CHR 0x22 \<in> set s \<or> CHR 0x0A \<in> set s"
    using quoted_neq [of s] unfolding q by simp
  moreover have "double_quotes [] = []" by (simp add: double_quotes_def)
  moreover have "double_quotes (ch # s) =
      (if ch = CHR 0x22 then [CHR 0x22, CHR 0x22] else [ch]) @ double_quotes s"
    by (simp add: double_quotes_def)
  moreover have "quoteField Null = [] \<and> quoteField Undefined = []"
    by (simp add: quoteField_def)
  moreover have "map_of row k = None \<and> \<not> inherited k \<longrightarrow> quoteField (field row k) = []"
    by (simp add: quoteField_def field_def inherited_def split: option.splits)
  ultimately show ?thesis by blast
qed

lemma convertToCSV_example:
  "convertToCSV [[(''id'', Str ''1''), (''name'', Str ''a,b'')], [(''id'', Null)]]
     = ''id,name'' @ [CHR 0x0A] @ ''1,'' @ [CHR 0x22] @ ''a,b'' @ [CHR 0x22] @ [CHR 0x0A] @ '',''"
  by (simp add: convertToCSV_def Object_keys_def Object_entries_def is_array_index_def
      is_digit_in_def digit_table_def field_def quoteField_def needs_quote_def double_quotes_def
      proto_members_def)

text \<open>
  C5 fails on the code for a missing field whose name is the name of a member of
  \<open>Object.prototype\<close>: \<open>row[header]\<close> then reads the inherited member, which is not
  \<open>null\<close>. When the first record has the column \<open>constructor\<close> and the second record has no
  such field, the line of the second record is not the empty string but the text of the
  inherited function.
\<close>

theorem convertToCSV_inherited_field:
  "convertToCSV [[(''constructor'', Str ''x'')], []]
     = ''constructor'' @ [CHR 0x0A] @ ''x'' @ [CHR 0x0A] @ ''function Object() { [native code] }''
   \<and> map_of ([] :: listing) ''constructor'' = None
   \<and> quoteField (field [] ''constructor'') = ''function Object() { [native code] }''"
  by (simp add: convertToCSV_def Object_keys_def Object_entries_def is_array_index_def
      is_digit_in_def digit_table_def field_def quoteField_def needs_quote_def double_quotes_def
      proto_members_def)


end
